theory Spec2Isabelle
  imports Complex_Main "HOL-Library.Word" "HOL-Library.Log_Nat"
begin

unbundle bit_operations_syntax

section \<open>Machine types and constants\<close>

text \<open>
  The C integer types of \<^verbatim>\<open>wav_player.c\<close> on the ESP32 target: \<^verbatim>\<open>int\<close> is 32 bits wide,
  arithmetic wraps around, signed values are read with \<open>sint\<close> and compared with \<open><s\<close>.
\<close>

type_synonym uint8_t = "8 word"
type_synonym int16_t = "16 word"
type_synonym uint16_t = "16 word"
type_synonym int32_t = "32 word"
type_synonym uint32_t = "32 word"
type_synonym esp_err_t = "32 word"

text \<open>The error codes of ESP-IDF's \<^verbatim>\<open>esp_err.h\<close>, which the header includes.\<close>

definition ESP_OK :: esp_err_t where
  "ESP_OK = 0"

definition ESP_FAIL :: esp_err_t where
  "ESP_FAIL = - 1"

definition ESP_ERR_INVALID_ARG :: esp_err_t where
  "ESP_ERR_INVALID_ARG = 0x102"

text \<open>\<^verbatim>\<open>wav_player.h\<close>: the volume range. \<^verbatim>\<open>wav_player.c\<close> line 7: the chunk size in effect.\<close>

definition MIN_VOLUME :: int32_t where
  "MIN_VOLUME = 0"

definition MAX_VOLUME :: int32_t where
  "MAX_VOLUME = 100"

definition BUFFER_SIZE :: nat where
  "BUFFER_SIZE = 1024"

section \<open>The WAV header\<close>

record wav_header_t =
  num_channels :: uint16_t
  sample_rate :: uint32_t
  bits_per_sample :: uint16_t
  data_size :: uint32_t
  block_align :: uint16_t

text \<open>
  \<^verbatim>\<open>is_valid_wav_header\<close>, lines 56-80. The \<^verbatim>\<open>uint16_t\<close> fields are promoted to \<^verbatim>\<open>int\<close>
  for the comparisons and for the product, which is then converted back to \<^verbatim>\<open>uint16_t\<close>.
\<close>

definition is_valid_wav_header :: "wav_header_t \<Rightarrow> bool" where
  "is_valid_wav_header header =
     (if num_channels header < 1 \<or> num_channels header > 2 then False
      else if bits_per_sample header \<noteq> 16 \<and> bits_per_sample header \<noteq> 24 then False
      else if sample_rate header < 8000 \<or> sample_rate header > 48000 then False
      else
        let expected_block_align =
              (word_of_int (uint (num_channels header) * (uint (bits_per_sample header) div 8))
                 :: uint16_t)
        in if block_align header \<noteq> expected_block_align then False else True)"

section \<open>Sample conversion\<close>

text \<open>
  \<^verbatim>\<open>convert_24_to_16\<close>, lines 19-27. The three arguments are \<^verbatim>\<open>sample_24bit[0]\<close>,
  \<^verbatim>\<open>sample_24bit[1]\<close> and \<^verbatim>\<open>sample_24bit[2]\<close>. Each byte is promoted to a 32-bit \<^verbatim>\<open>int\<close>
  before it is shifted; \<^verbatim>\<open>>>\<close> on the signed value is the arithmetic shift, and the
  cast to \<^verbatim>\<open>int16_t\<close> keeps the low 16 bits.
\<close>

definition convert_24_to_16 :: "uint8_t \<Rightarrow> uint8_t \<Rightarrow> uint8_t \<Rightarrow> int16_t" where
  "convert_24_to_16 b0 b1 b2 =
     (let sample_24 = (push_bit 16 (ucast b2 :: int32_t) OR push_bit 8 (ucast b1 :: int32_t)
                         OR (ucast b0 :: int32_t));
          sample_24 = (if sample_24 AND 0x800000 \<noteq> 0 then sample_24 OR 0xFF000000
                       else sample_24)
      in ucast (signed_drop_bit 8 sample_24))"

text \<open>
  \<^verbatim>\<open>apply_volume\<close>, lines 38-41, computes in single-precision floating point. A \<^verbatim>\<open>float\<close>
  is modelled by the rational number it denotes, and every operation rounds its exact
  result to the nearest number with a 24-bit significand, ties to the even significand.
  Exponent overflow and subnormal numbers are left out: the values of this function stay
  between \<open>1 / 128\<close> and \<open>2 ^ 40\<close> in magnitude, or are zero.
\<close>

definition pow2 :: "int \<Rightarrow> rat" where
  "pow2 e = (if 0 \<le> e then 2 ^ nat e else 1 / 2 ^ nat (- e))"

text \<open>The exponent of a positive rational: \<open>pow2 (ilog2 q) \<le> q < pow2 (ilog2 q + 1)\<close>.\<close>

definition ilog2 :: "rat \<Rightarrow> int" where
  "ilog2 q =
     (let (a, b) = quotient_of q;
          e = bitlen a - bitlen b
      in if pow2 e \<le> q then e else e - 1)"

definition round_half_even :: "rat \<Rightarrow> int" where
  "round_half_even q =
     (let f = \<lfloor>q\<rfloor>;
          d = q - of_int f
      in if d < 1 / 2 then f else if 1 / 2 < d then f + 1 else if even f then f else f + 1)"

definition float_round :: "rat \<Rightarrow> rat" where
  "float_round q =
     (if q = 0 then 0
      else
        let ulp = pow2 (ilog2 \<bar>q\<bar> - 23)
        in sgn q * of_int (round_half_even (\<bar>q\<bar> / ulp)) * ulp)"

text \<open>The conversion of a \<^verbatim>\<open>float\<close> to an integer type drops the fraction.\<close>

definition truncate_int :: "rat \<Rightarrow> int" where
  "truncate_int q = (if 0 \<le> q then \<lfloor>q\<rfloor> else \<lceil>q\<rceil>)"

text \<open>
  \<^verbatim>\<open>volume / 100.0f\<close> converts \<^verbatim>\<open>volume\<close> to \<^verbatim>\<open>float\<close> and divides; \<^verbatim>\<open>sample * volume_multiplier\<close>
  converts the sample (exactly) and multiplies; the cast to \<^verbatim>\<open>int16_t\<close> truncates. The
  conversion is defined in C when the truncated value fits 16 bits, which it does
  whenever the volume is between 0 and 100 (lemma \<open>apply_volume_in_range\<close> below);
  \<open>word_of_int\<close> keeps the low 16 bits.
\<close>

definition apply_volume :: "int16_t \<Rightarrow> int32_t \<Rightarrow> int16_t" where
  "apply_volume sample volume =
     (let volume_multiplier = float_round (float_round (of_int (sint volume)) / 100)
      in word_of_int (truncate_int (float_round (of_int (sint sample) * volume_multiplier))))"

section \<open>Volume state\<close>

text \<open>The process-wide state of the module: the static variable \<^verbatim>\<open>current_volume\<close>.\<close>

record player_state =
  current_volume :: int32_t

text \<open>Line 9: \<^verbatim>\<open>static int current_volume = 30;\<close>\<close>

definition initial_state :: player_state where
  "initial_state = \<lparr>current_volume = 30\<rparr>"

definition wav_player_set_volume :: "int32_t \<Rightarrow> player_state \<Rightarrow> player_state" where
  "wav_player_set_volume volume s =
     (let volume = (if volume <s MIN_VOLUME then MIN_VOLUME else volume);
          volume = (if MAX_VOLUME <s volume then MAX_VOLUME else volume)
      in s\<lparr>current_volume := volume\<rparr>)"

definition wav_player_increase_volume :: "int32_t \<Rightarrow> player_state \<Rightarrow> player_state" where
  "wav_player_increase_volume amount s = wav_player_set_volume (current_volume s + amount) s"

definition wav_player_decrease_volume :: "int32_t \<Rightarrow> player_state \<Rightarrow> player_state" where
  "wav_player_decrease_volume amount s = wav_player_set_volume (current_volume s - amount) s"

definition wav_player_get_volume :: "player_state \<Rightarrow> int32_t" where
  "wav_player_get_volume s = current_volume s"

text \<open>A sequence of calls of the three mutating operations.\<close>

datatype volume_op = Set_volume int32_t | Increase_volume int32_t | Decrease_volume int32_t

fun run_volume_op :: "volume_op \<Rightarrow> player_state \<Rightarrow> player_state" where
  "run_volume_op (Set_volume v) s = wav_player_set_volume v s"
| "run_volume_op (Increase_volume a) s = wav_player_increase_volume a s"
| "run_volume_op (Decrease_volume a) s = wav_player_decrease_volume a s"

fun run_volume_ops :: "volume_op list \<Rightarrow> player_state \<Rightarrow> player_state" where
  "run_volume_ops [] s = s"
| "run_volume_ops (c # cs) s = run_volume_ops cs (run_volume_op c s)"

section \<open>Files, memory blocks and the sink\<close>

text \<open>
  An open \<^verbatim>\<open>FILE*\<close> is the list of the bytes from the read position to the end of the file.
  \<^verbatim>\<open>fread(ptr, 1, n, f)\<close> hands out the next \<open>n\<close> bytes, or all that are left, and moves the
  position behind them; the number of bytes it returns is the length of the first component.
\<close>

type_synonym FILE = "uint8_t list"

definition fread :: "nat \<Rightarrow> FILE \<Rightarrow> uint8_t list \<times> FILE" where
  "fread n f = (take n f, drop n f)"

text \<open>
  A block of memory is the function from byte offsets to the bytes stored there. For a
  block obtained from \<^verbatim>\<open>malloc(BUFFER_SIZE)\<close> the offsets from \<open>BUFFER_SIZE\<close> on stand for
  whatever lies behind the block; the initial contents are indeterminate.
\<close>

type_synonym memory = "nat \<Rightarrow> uint8_t"

text \<open>
  The sink \<^verbatim>\<open>write_cb(src, size, user_data)\<close> sees the \<open>size\<close> bytes at \<open>src\<close> and the object
  behind \<^verbatim>\<open>user_data\<close>, which it may change, and returns an error code.
\<close>

type_synonym 'u wav_player_write_cb_t = "uint8_t list \<Rightarrow> 'u \<Rightarrow> esp_err_t \<times> 'u"

text \<open>
  The calls a run makes to its collaborators, in order: \<open>Ev_fread n k\<close> is a call of
  \<^verbatim>\<open>fread\<close> that asked for \<open>n\<close> bytes and got \<open>k\<close>; \<open>Ev_write_cb bs r\<close> is a call of the
  sink with the bytes \<open>bs\<close> that returned \<open>r\<close>.
\<close>

datatype event =
    Ev_fopen string
  | Ev_fread nat nat
  | Ev_write_cb "uint8_t list" esp_err_t
  | Ev_fclose

text \<open>
  What a run finds around it: the file system behind \<^verbatim>\<open>fopen(path, "rb")\<close> (\<open>None\<close> is the
  \<^verbatim>\<open>NULL\<close> result), the results of the two calls of \<^verbatim>\<open>malloc\<close> (\<open>None\<close> is \<^verbatim>\<open>NULL\<close>), and
  the indeterminate initial value of the local variable \<^verbatim>\<open>wav_header\<close>.
\<close>

record environment =
  fopen :: "string \<Rightarrow> FILE option"
  malloc_buffer :: "memory option"
  malloc_processed_buffer :: "memory option"
  stack_wav_header :: wav_header_t

section \<open>Header parser\<close>

text \<open>
  \<^verbatim>\<open>read_wav_header\<close>, lines 92-109. The bytes are promoted to \<^verbatim>\<open>int\<close>, shifted and combined,
  and the result is converted to the type of the field. The caller's header is left as
  it was when the read is short.
\<close>

definition read_wav_header :: "FILE \<Rightarrow> wav_header_t \<Rightarrow> esp_err_t \<times> wav_header_t \<times> FILE" where
  "read_wav_header f header =
     (let (wav_header, f') = fread 44 f
      in if length wav_header \<noteq> 44 then (ESP_FAIL, header, f')
         else
           (ESP_OK,
            header
              \<lparr>num_channels :=
                 ucast ((ucast (wav_header ! 22) :: int32_t)
                          OR push_bit 8 (ucast (wav_header ! 23) :: int32_t)),
               sample_rate :=
                 (ucast (wav_header ! 24) :: int32_t)
                   OR push_bit 8 (ucast (wav_header ! 25) :: int32_t)
                   OR push_bit 16 (ucast (wav_header ! 26) :: int32_t)
                   OR push_bit 24 (ucast (wav_header ! 27) :: int32_t),
               bits_per_sample :=
                 ucast ((ucast (wav_header ! 34) :: int32_t)
                          OR push_bit 8 (ucast (wav_header ! 35) :: int32_t)),
               block_align :=
                 ucast ((ucast (wav_header ! 32) :: int32_t)
                          OR push_bit 8 (ucast (wav_header ! 33) :: int32_t)),
               data_size :=
                 (ucast (wav_header ! 40) :: int32_t)
                   OR push_bit 8 (ucast (wav_header ! 41) :: int32_t)
                   OR push_bit 16 (ucast (wav_header ! 42) :: int32_t)
                   OR push_bit 24 (ucast (wav_header ! 43) :: int32_t)\<rparr>,
            f'))"

text \<open>\<^verbatim>\<open>wav_player_get_info\<close>, lines 111-121.\<close>

definition wav_player_get_info ::
  "environment \<Rightarrow> string \<Rightarrow> wav_header_t \<Rightarrow> esp_err_t \<times> wav_header_t \<times> event list" where
  "wav_player_get_info env filepath header =
     (case fopen env filepath of
        None \<Rightarrow> (ESP_FAIL, header, [Ev_fopen filepath])
      | Some fp \<Rightarrow>
          let (ret, header', fp') = read_wav_header fp header
          in (ret, header', [Ev_fopen filepath, Ev_fread 44 (length fp - length fp'), Ev_fclose]))"

section \<open>Sample transform of one chunk\<close>

text \<open>
  Lines 157-158 view the two buffers as arrays of \<^verbatim>\<open>int16_t\<close>; the target is little-endian.
\<close>

definition load_int16 :: "memory \<Rightarrow> nat \<Rightarrow> int16_t" where
  "load_int16 m i = word_cat (m (2 * i + 1)) (m (2 * i))"

definition store_int16 :: "memory \<Rightarrow> nat \<Rightarrow> int16_t \<Rightarrow> memory" where
  "store_int16 m i v = m(2 * i := ucast v, 2 * i + 1 := ucast (drop_bit 8 v))"

text \<open>
  The body of the read loop between \<^verbatim>\<open>fread\<close> and \<^verbatim>\<open>write_cb\<close>, lines 156-172: the result
  is the processed buffer. The 16-bit branch stores \<open>bytes_read div 2\<close> samples. The
  24-bit branch runs over the offsets \<open>0, 3, 6, \<dots>\<close> below \<open>bytes_read\<close> and computes the
  two locals \<^verbatim>\<open>sample\<close> and \<^verbatim>\<open>processed\<close>; it has no store.
\<close>

definition process_chunk :: "uint16_t \<Rightarrow> int32_t \<Rightarrow> memory \<Rightarrow> memory \<Rightarrow> nat \<Rightarrow> memory" where
  "process_chunk bps volume buffer processed_buffer bytes_read =
     (if bps = 16 then
        let sample_count = bytes_read div 2
        in fold (\<lambda>i pb. store_int16 pb i (apply_volume (load_int16 buffer i) volume))
             [0..<sample_count] processed_buffer
      else if bps = 24 then
        fold (\<lambda>i pb.
                let sample = convert_24_to_16 (buffer i) (buffer (i + 1)) (buffer (i + 2));
                    processed = apply_volume sample volume
                in pb)
          (map (\<lambda>k. 3 * k) [0..<(bytes_read + 2) div 3]) processed_buffer
      else processed_buffer)"

section \<open>Streaming engine\<close>

text \<open>
  The read loop, lines 154-179, with the value of \<^verbatim>\<open>ret\<close> when it is left. The volume is
  read from \<^verbatim>\<open>current_volume\<close>, which the sink is taken not to change.
\<close>

function stream_loop ::
  "uint16_t \<Rightarrow> int32_t \<Rightarrow> 'u wav_player_write_cb_t \<Rightarrow> FILE \<Rightarrow> memory \<Rightarrow> memory \<Rightarrow> 'u
     \<Rightarrow> esp_err_t \<times> event list \<times> 'u" where
  "stream_loop bps volume write_cb fp buffer processed_buffer user_data =
     (let chunk = fst (fread BUFFER_SIZE fp);
          fp' = snd (fread BUFFER_SIZE fp);
          bytes_read = length chunk
      in if bytes_read > 0 then
           let buffer' = (\<lambda>i. if i < bytes_read then chunk ! i else buffer i);
               processed_buffer' = process_chunk bps volume buffer' processed_buffer bytes_read;
               src = map processed_buffer' [0..<bytes_read];
               ret = fst (write_cb src user_data);
               user_data' = snd (write_cb src user_data)
           in if ret \<noteq> ESP_OK then
                (ret, [Ev_fread BUFFER_SIZE bytes_read, Ev_write_cb src ret], user_data')
              else
                (case stream_loop bps volume write_cb fp' buffer' processed_buffer' user_data' of
                   (ret', evs, user_data'') \<Rightarrow>
                     (ret', Ev_fread BUFFER_SIZE bytes_read # Ev_write_cb src ret # evs,
                      user_data''))
         else (ESP_OK, [Ev_fread BUFFER_SIZE 0], user_data))"
  by pat_completeness auto
termination
  by (relation "measure (\<lambda>(bps, volume, write_cb, fp, buffer, processed_buffer, user_data). length fp)")
    (auto simp: fread_def BUFFER_SIZE_def)

text \<open>\<^verbatim>\<open>wav_player_play_file\<close>, lines 123-185. \<open>None\<close> for \<open>write_cb\<close> is the \<^verbatim>\<open>NULL\<close> pointer.\<close>

definition wav_player_play_file ::
  "environment \<Rightarrow> player_state \<Rightarrow> string \<Rightarrow> 'u wav_player_write_cb_t option \<Rightarrow> 'u
     \<Rightarrow> esp_err_t \<times> event list \<times> 'u" where
  "wav_player_play_file env s filepath write_cb user_data =
     (case write_cb of
        None \<Rightarrow> (ESP_ERR_INVALID_ARG, [], user_data)
      | Some cb \<Rightarrow>
          (case fopen env filepath of
             None \<Rightarrow> (ESP_FAIL, [Ev_fopen filepath], user_data)
           | Some fp \<Rightarrow>
               let (r, wav_header, fp') = read_wav_header fp (stack_wav_header env);
                   evs_header = [Ev_fopen filepath, Ev_fread 44 (length fp - length fp')]
               in if r \<noteq> ESP_OK \<or> \<not> is_valid_wav_header wav_header then
                    (ESP_FAIL, evs_header @ [Ev_fclose], user_data)
                  else
                    (case (malloc_buffer env, malloc_processed_buffer env) of
                       (Some buffer, Some processed_buffer) \<Rightarrow>
                         (case stream_loop (bits_per_sample wav_header) (current_volume s) cb
                                 fp' buffer processed_buffer user_data of
                            (ret, evs, user_data') \<Rightarrow>
                              (ret, evs_header @ evs @ [Ev_fclose], user_data'))
                     | _ \<Rightarrow> (ESP_FAIL, evs_header @ [Ev_fclose], user_data))))"

section \<open>Reading the record of a run\<close>

text \<open>The number of bytes all calls of \<^verbatim>\<open>fread\<close> returned.\<close>

fun bytes_read_total :: "event list \<Rightarrow> nat" where
  "bytes_read_total [] = 0"
| "bytes_read_total (Ev_fread n k # evs) = k + bytes_read_total evs"
| "bytes_read_total (e # evs) = bytes_read_total evs"

text \<open>The chunks the sink took, that is the calls of the sink that returned \<open>ESP_OK\<close>.\<close>

fun delivered :: "event list \<Rightarrow> uint8_t list list" where
  "delivered [] = []"
| "delivered (Ev_write_cb bs r # evs) = (if r = ESP_OK then bs # delivered evs else delivered evs)"
| "delivered (e # evs) = delivered evs"

text \<open>Whether some call of the sink returned a failure.\<close>

fun sink_failed :: "event list \<Rightarrow> bool" where
  "sink_failed [] = False"
| "sink_failed (Ev_write_cb bs r # evs) = (r \<noteq> ESP_OK \<or> sink_failed evs)"
| "sink_failed (e # evs) = sink_failed evs"

fun count_fopen :: "event list \<Rightarrow> nat" where
  "count_fopen [] = 0"
| "count_fopen (Ev_fopen p # evs) = Suc (count_fopen evs)"
| "count_fopen (e # evs) = count_fopen evs"

text \<open>Little-endian numbers in a byte list, as sums.\<close>

definition le16 :: "uint8_t list \<Rightarrow> nat \<Rightarrow> nat" where
  "le16 bs off = unat (bs ! off) + 256 * unat (bs ! (off + 1))"

definition le32 :: "uint8_t list \<Rightarrow> nat \<Rightarrow> nat" where
  "le32 bs off =
     unat (bs ! off) + 256 * unat (bs ! (off + 1)) + 65536 * unat (bs ! (off + 2))
       + 16777216 * unat (bs ! (off + 3))"

section \<open>The error taxonomy of the specification\<close>

text \<open>
  Section 7 of the specification names six kinds of failure. The two functions below say
  which kind, if any, a call runs into, following the words of sections 4.4 and 7: a
  missing sink, a path that cannot be opened, fewer than 44 bytes for the header, a header
  that fails validation, a buffer that cannot be acquired, a sink that reports a failure.
\<close>

datatype failure =
    ArgumentError
  | OpenError
  | FormatError
  | UnsupportedFormatError
  | AllocationError
  | SinkError

definition play_file_failure ::
  "environment \<Rightarrow> player_state \<Rightarrow> string \<Rightarrow> 'u wav_player_write_cb_t option \<Rightarrow> 'u
     \<Rightarrow> failure option" where
  "play_file_failure env s filepath write_cb user_data =
     (case write_cb of
        None \<Rightarrow> Some ArgumentError
      | Some cb \<Rightarrow>
          (case fopen env filepath of
             None \<Rightarrow> Some OpenError
           | Some fp \<Rightarrow>
               if length fp < 44 then Some FormatError
               else if \<not> is_valid_wav_header
                           (fst (snd (read_wav_header fp (stack_wav_header env))))
                 then Some UnsupportedFormatError
               else if malloc_buffer env = None \<or> malloc_processed_buffer env = None
                 then Some AllocationError
               else if sink_failed
                         (fst (snd (wav_player_play_file env s filepath write_cb user_data)))
                 then Some SinkError
               else None))"

definition get_info_failure :: "environment \<Rightarrow> string \<Rightarrow> failure option" where
  "get_info_failure env filepath =
     (case fopen env filepath of
        None \<Rightarrow> Some OpenError
      | Some fp \<Rightarrow> if length fp < 44 then Some FormatError else None)"

section \<open>Predicates and sample inputs used in the statements\<close>

text \<open>The documented range of the volume level.\<close>

definition volume_in_range :: "player_state \<Rightarrow> bool" where
  "volume_in_range s \<longleftrightarrow> 0 \<le> sint (current_volume s) \<and> sint (current_volume s) \<le> 100"

text \<open>
  The shape of the record of the read loop when it is left with \<open>ret\<close>: no file is opened;
  with \<open>ESP_OK\<close> every call of the sink succeeded and every byte read was handed on; with
  a failure the record ends with the read and the failed call of the sink, after a
  prefix of that kind. The list is searched with the executable \<open>sink_failed\<close>.
\<close>

definition loop_trace_ok :: "esp_err_t \<Rightarrow> event list \<Rightarrow> bool" where
  "loop_trace_ok ret evs \<longleftrightarrow>
     count_fopen evs = 0 \<and>
     (if ret = ESP_OK then
        \<not> sink_failed evs \<and> bytes_read_total evs = sum_list (map length (delivered evs))
      else
        \<exists>pre bs. evs = pre @ [Ev_fread BUFFER_SIZE (length bs), Ev_write_cb bs ret] \<and>
          \<not> sink_failed pre \<and> bytes_read_total pre = sum_list (map length (delivered pre)))"

text \<open>
  A canonical 44-byte header for one channel at 8000 Hz with the given sample width and
  block alignment, a file system that holds one file, with both buffers filled with one
  byte value, and two sinks whose \<^verbatim>\<open>user_data\<close> counts the calls.
\<close>

definition example_header :: "uint8_t \<Rightarrow> uint8_t \<Rightarrow> uint8_t list" where
  "example_header bits align =
     replicate 22 0 @ [1, 0, 0x40, 0x1F, 0, 0, 0, 0, 0, 0, align, 0, bits, 0] @ replicate 8 0"

definition example_env :: "uint8_t list \<Rightarrow> uint8_t \<Rightarrow> environment" where
  "example_env file fill =
     \<lparr>fopen = (\<lambda>p. if p = ''a.wav'' then Some file else None),
      malloc_buffer = Some (\<lambda>i. fill),
      malloc_processed_buffer = Some (\<lambda>i. fill),
      stack_wav_header =
        \<lparr>num_channels = 0, sample_rate = 0, bits_per_sample = 0, data_size = 0,
         block_align = 0\<rparr>\<rparr>"

definition missing_file_env :: environment where
  "missing_file_env = example_env [] 0\<lparr>fopen := (\<lambda>p. None)\<rparr>"

definition counting_sink :: "nat wav_player_write_cb_t" where
  "counting_sink bs n = (ESP_OK, Suc n)"

definition second_call_fails :: "nat wav_player_write_cb_t" where
  "second_call_fails bs n = (if n = 0 then ESP_OK else ESP_FAIL, Suc n)"

section \<open>Header validator\<close>

lemma uint16_small_values:
  "unat (w :: uint16_t) = Suc 0 \<Longrightarrow> w = 1"
  "unat w = 2 \<Longrightarrow> w = 2"
  "unat w = 16 \<Longrightarrow> w = 16"
  "unat w = 24 \<Longrightarrow> w = 24"
  by (simp_all add: word_unat_eq_iff)

lemma block_align_word:
  fixes n b a :: uint16_t
  assumes "n = 1 \<or> n = 2" "b = 16 \<or> b = 24" "unat a = unat n * (unat b div 8)"
  shows "a = word_of_int (uint n * (uint b div 8))"
  using assms by (elim disjE; hypsubst) (simp_all add: word_unat_eq_iff)

lemma is_valid_wav_header_iff:
  "is_valid_wav_header h \<longleftrightarrow>
     (1 \<le> unat (num_channels h) \<and> unat (num_channels h) \<le> 2 \<and>
      (unat (bits_per_sample h) = 16 \<or> unat (bits_per_sample h) = 24) \<and>
      8000 \<le> unat (sample_rate h) \<and> unat (sample_rate h) \<le> 48000 \<and>
      unat (block_align h) = unat (num_channels h) * (unat (bits_per_sample h) div 8))"
  (is "?L = ?R")
proof
  assume ?L
  then have nc: "num_channels h = 1 \<or> num_channels h = 2"
    by (auto simp: is_valid_wav_header_def word_less_nat_alt not_less word_unat_eq_iff
        split: if_splits)
  from \<open>?L\<close> have bp: "bits_per_sample h = 16 \<or> bits_per_sample h = 24"
    by (auto simp: is_valid_wav_header_def split: if_splits)
  from \<open>?L\<close> have sr: "8000 \<le> unat (sample_rate h) \<and> unat (sample_rate h) \<le> 48000"
    by (auto simp: is_valid_wav_header_def word_less_nat_alt not_less split: if_splits)
  from \<open>?L\<close> have ba:
    "block_align h = word_of_int (uint (num_channels h) * (uint (bits_per_sample h) div 8))"
    by (auto simp: is_valid_wav_header_def Let_def split: if_splits)
  from nc bp ba sr show ?R by auto
next
  assume r: ?R
  then have "unat (num_channels h) = 1 \<or> unat (num_channels h) = 2" by arith
  then have nc: "num_channels h = 1 \<or> num_channels h = 2"
    by (auto dest: uint16_small_values)
  from r have bp: "bits_per_sample h = 16 \<or> bits_per_sample h = 24"
    by (auto dest: uint16_small_values)
  from r have sr: "\<not> sample_rate h < 8000 \<and> \<not> sample_rate h > 48000"
    by (simp add: word_less_nat_alt not_less)
  from r have "unat (block_align h) = unat (num_channels h) * (unat (bits_per_sample h) div 8)"
    by simp
  with nc bp have ba:
    "block_align h = word_of_int (uint (num_channels h) * (uint (bits_per_sample h) div 8))"
    by (rule block_align_word)
  from nc bp sr ba show ?L
    by (auto simp: is_valid_wav_header_def Let_def)
qed

text \<open>
  Claim C1. The validator accepts a header exactly when the four rules hold together:
  one or two channels, 16 or 24 bits per sample, a sample rate from 8000 to 48000, and a
  block alignment equal to the channel count times the bytes per sample. Two headers that
  agree on these four fields get the same answer, whatever their \<open>data_size\<close>.
\<close>

theorem is_valid_wav_header_rules:
  "(is_valid_wav_header h \<longleftrightarrow>
     (1 \<le> unat (num_channels h) \<and> unat (num_channels h) \<le> 2 \<and>
      (unat (bits_per_sample h) = 16 \<or> unat (bits_per_sample h) = 24) \<and>
      8000 \<le> unat (sample_rate h) \<and> unat (sample_rate h) \<le> 48000 \<and>
      unat (block_align h) = unat (num_channels h) * (unat (bits_per_sample h) div 8))) \<and>
   (num_channels h' = num_channels h \<and> bits_per_sample h' = bits_per_sample h \<and>
    sample_rate h' = sample_rate h \<and> block_align h' = block_align h \<longrightarrow>
      is_valid_wav_header h' = is_valid_wav_header h)"
proof -
  have "is_valid_wav_header h' = is_valid_wav_header h"
    if "num_channels h' = num_channels h" "bits_per_sample h' = bits_per_sample h"
       "sample_rate h' = sample_rate h" "block_align h' = block_align h"
    using that by (simp add: is_valid_wav_header_def)
  then show ?thesis
    using is_valid_wav_header_iff [of h] by blast
qed

theorem is_valid_wav_header_rules_witness:
  "is_valid_wav_header
     \<lparr>num_channels = 2, sample_rate = 44100, bits_per_sample = 16, data_size = 0,
      block_align = 4\<rparr> \<and>
   is_valid_wav_header
     \<lparr>num_channels = 2, sample_rate = 44100, bits_per_sample = 16, data_size = 123456,
      block_align = 4\<rparr> \<and>
   \<not> is_valid_wav_header
     \<lparr>num_channels = 2, sample_rate = 44100, bits_per_sample = 16, data_size = 0,
      block_align = 2\<rparr>"
  using
    is_valid_wav_header_rules
      [of "\<lparr>num_channels = 2, sample_rate = 44100, bits_per_sample = 16, data_size = 0,
             block_align = 4\<rparr>"
          "\<lparr>num_channels = 2, sample_rate = 44100, bits_per_sample = 16, data_size = 123456,
             block_align = 4\<rparr>"]
    is_valid_wav_header_rules
      [of "\<lparr>num_channels = 2, sample_rate = 44100, bits_per_sample = 16, data_size = 0,
             block_align = 2\<rparr>"
          "\<lparr>num_channels = 2, sample_rate = 44100, bits_per_sample = 16, data_size = 0,
             block_align = 2\<rparr>"]
  by simp

section \<open>Conversion from 24 to 16 bits\<close>

lemma top_byte_mask: "(0xFF000000 :: int32_t) = push_bit 24 (mask 8)"
  by (simp add: mask_eq_exp_minus_1)

lemma convert_24_to_16_bits:
  "convert_24_to_16 b0 b1 b2 = push_bit 8 (ucast b2) OR ucast b1"
  by (rule bit_word_eqI)
    (auto simp: convert_24_to_16_def Let_def top_byte_mask bit_simps dest: bit_imp_le_length)

lemma upper_bytes_sum:
  "(push_bit 8 (ucast (b2 :: uint8_t)) OR ucast (b1 :: uint8_t) :: int16_t)
     = word_of_int (uint b1 + 256 * uint b2)"
proof -
  have "(push_bit 8 (ucast b2) OR ucast b1 :: int16_t) = push_bit 8 (ucast b2) + ucast b1"
    by (rule disjunctive_add [symmetric]) (auto simp: bit_simps dest: bit_imp_le_length)
  also have "\<dots> = word_of_int (uint b1 + 256 * uint b2)"
    by (simp add: push_bit_eq_mult)
  finally show ?thesis .
qed

lemma sint16_in_range:
  "- 32768 \<le> x \<Longrightarrow> x < 32768 \<Longrightarrow> sint (word_of_int x :: int16_t) = x"
  by (simp add: sint_sbintrunc' signed_take_bit_int_eq_self)

lemma sint16_of_unsigned:
  assumes "0 \<le> v" "v < 65536"
  shows "sint (word_of_int v :: int16_t) = (if 32768 \<le> v then v - 65536 else v)"
proof (cases "32768 \<le> v")
  case True
  have z: "(65536 :: int16_t) = 0"
    by simp
  have "sint (word_of_int (v - 65536) :: int16_t) = v - 65536"
    using True assms by (intro sint16_in_range) simp_all
  then show ?thesis using True by (simp add: z)
next
  case False
  have "sint (word_of_int v :: int16_t) = v"
    using False assms by (intro sint16_in_range) simp_all
  then show ?thesis using False by simp
qed

lemma div_256_low_byte:
  fixes a k :: int
  assumes "0 \<le> a" "a < 256"
  shows "(a + 256 * k) div 256 = k"
  using assms by simp

lemma shift_of_sign_extension:
  fixes a b c :: int
  assumes "0 \<le> a" "a < 256" "0 \<le> b" "b < 256" "0 \<le> c" "c < 256"
  shows "(if 32768 \<le> b + 256 * c then b + 256 * c - 65536 else b + 256 * c) =
         (let u = a + 256 * b + 65536 * c;
              s = (if 8388608 \<le> u then u - 16777216 else u)
          in s div 256)"
proof -
  define k where "k = b + 256 * c"
  have u: "a + 256 * b + 65536 * c = a + 256 * k" by (simp add: k_def)
  have u': "a + 256 * k - 16777216 = a + 256 * (k - 65536)" by simp
  have e: "8388608 \<le> a + 256 * k \<longleftrightarrow> 32768 \<le> k" using assms(1,2) by linarith
  show ?thesis
    unfolding Let_def u k_def [symmetric] e
    by (simp only: u' div_256_low_byte [OF assms(1,2)] if_distrib [of "\<lambda>x. x div 256"])
qed

text \<open>
  Claim C4. For a little-endian sample of three bytes, the conversion assembles the 24-bit
  number \<open>u\<close>, reads it as a two's complement number (it subtracts \<open>2 ^ 24\<close> exactly when bit 23
  is set, which is what filling the top byte with ones does) and shifts it right by 8
  with the sign kept, that is, divides by 256 rounding down. For the bytes
  \<open>0x01 0x00 0x80\<close> the result is \<open>- 32768\<close>, a negative number.
\<close>

theorem convert_24_to_16_sign_extends:
  "sint (convert_24_to_16 b0 b1 b2) =
     (let u = uint b0 + 256 * uint b1 + 65536 * uint b2;
          s = (if 8388608 \<le> u then u - 16777216 else u)
      in s div 256) \<and>
   sint (convert_24_to_16 0x01 0x00 0x80) = - 32768 \<and>
   sint (convert_24_to_16 0x01 0x00 0x80) < 0"
proof -
  have r0: "0 \<le> uint b0" "uint b0 < 256" "0 \<le> uint b1" "uint b1 < 256"
    "0 \<le> uint b2" "uint b2 < 256"
    using uint_lt2p [of b0] uint_lt2p [of b1] uint_lt2p [of b2] by simp_all
  have "sint (convert_24_to_16 b0 b1 b2)
          = sint (word_of_int (uint b1 + 256 * uint b2) :: int16_t)"
    by (simp add: convert_24_to_16_bits upper_bytes_sum)
  also have "\<dots> = (if 32768 \<le> uint b1 + 256 * uint b2 then uint b1 + 256 * uint b2 - 65536
                     else uint b1 + 256 * uint b2)"
    using r0 by (intro sint16_of_unsigned) auto
  also have "\<dots> = (let u = uint b0 + 256 * uint b1 + 65536 * uint b2;
                         s = (if 8388608 \<le> u then u - 16777216 else u)
                     in s div 256)"
    using r0 by (rule shift_of_sign_extension)
  finally have general: "sint (convert_24_to_16 b0 b1 b2) =
     (let u = uint b0 + 256 * uint b1 + 65536 * uint b2;
          s = (if 8388608 \<le> u then u - 16777216 else u)
      in s div 256)" .
  have "sint (convert_24_to_16 0x01 0x00 0x80) = - 32768"
    by (simp add: convert_24_to_16_def)
  with general show ?thesis by simp
qed

theorem convert_24_to_16_sign_extends_witness:
  "sint (convert_24_to_16 0xFF 0xFF 0xFF) = - 1 \<and> sint (convert_24_to_16 0x34 0x12 0x7F) = 32530"
  using convert_24_to_16_sign_extends [of "0xFF" "0xFF" "0xFF"]
    convert_24_to_16_sign_extends [of "0x34" "0x12" "0x7F"]
  by simp

section \<open>Volume state\<close>

lemma set_volume_in_range: "volume_in_range (wav_player_set_volume v s)"
  by (simp add: volume_in_range_def wav_player_set_volume_def MIN_VOLUME_def MAX_VOLUME_def
      Let_def word_sless_alt)

lemma run_volume_op_in_range: "volume_in_range (run_volume_op c s)"
  by (cases c)
    (simp_all add: wav_player_increase_volume_def wav_player_decrease_volume_def
      set_volume_in_range)

lemma run_volume_ops_in_range:
  "volume_in_range s \<Longrightarrow> volume_in_range (run_volume_ops cs s)"
  by (induction cs arbitrary: s) (simp_all add: run_volume_op_in_range)

lemma sint32_in_range:
  "- 2147483648 \<le> x \<Longrightarrow> x < 2147483648 \<Longrightarrow> sint (word_of_int x :: int32_t) = x"
  by (simp add: sint_sbintrunc' signed_take_bit_int_eq_self)

lemma sint_set_volume:
  "sint (wav_player_get_volume (wav_player_set_volume v s)) = max 0 (min 100 (sint v))"
  by (simp add: wav_player_get_volume_def wav_player_set_volume_def MIN_VOLUME_def
      MAX_VOLUME_def Let_def word_sless_alt)

lemma sint_add_no_overflow:
  fixes a b :: int32_t
  assumes "- 2147483648 \<le> sint a + sint b" "sint a + sint b < 2147483648"
  shows "sint (a + b) = sint a + sint b"
proof -
  have "a + b = word_of_int (sint a + sint b)" by simp
  then show ?thesis using assms by (simp only: sint32_in_range)
qed

lemma sint_diff_no_overflow:
  fixes a b :: int32_t
  assumes "- 2147483648 \<le> sint a - sint b" "sint a - sint b < 2147483648"
  shows "sint (a - b) = sint a - sint b"
proof -
  have "a - b = word_of_int (sint a - sint b)" by simp
  then show ?thesis using assms by (simp only: sint32_in_range)
qed

text \<open>
  Claim C9. Increasing by an amount is setting the volume to the current level plus the
  amount, decreasing is setting it to the current level minus the amount, and setting
  clamps into the range from 0 to 100; so increasing by a negative amount is decreasing
  and the other way round. The sum and the difference are those of the 32-bit \<^verbatim>\<open>int\<close>;
  whenever they fit 32 bits the new level is the clamped sum or difference of the
  integers. Setting \<open>- 5\<close> gives 0 and setting 150 gives 100.
\<close>

theorem volume_ops_compose_with_set:
  "wav_player_increase_volume amount s = wav_player_set_volume (current_volume s + amount) s \<and>
   wav_player_decrease_volume amount s = wav_player_set_volume (current_volume s - amount) s \<and>
   sint (wav_player_get_volume (wav_player_set_volume v s)) = max 0 (min 100 (sint v)) \<and>
   wav_player_increase_volume (- amount) s = wav_player_decrease_volume amount s \<and>
   wav_player_decrease_volume (- amount) s = wav_player_increase_volume amount s \<and>
   (- 2147483648 \<le> sint (current_volume s) + sint amount \<and>
    sint (current_volume s) + sint amount < 2147483648 \<longrightarrow>
      sint (wav_player_get_volume (wav_player_increase_volume amount s))
        = max 0 (min 100 (sint (current_volume s) + sint amount))) \<and>
   (- 2147483648 \<le> sint (current_volume s) - sint amount \<and>
    sint (current_volume s) - sint amount < 2147483648 \<longrightarrow>
      sint (wav_player_get_volume (wav_player_decrease_volume amount s))
        = max 0 (min 100 (sint (current_volume s) - sint amount))) \<and>
   wav_player_get_volume (wav_player_set_volume (- 5) s) = 0 \<and>
   wav_player_get_volume (wav_player_set_volume 150 s) = 100"
proof -
  have a: "wav_player_get_volume (wav_player_set_volume (- 5) s) = 0"
    by (simp add: wav_player_get_volume_def wav_player_set_volume_def MIN_VOLUME_def
        MAX_VOLUME_def word_sless_alt)
  have b: "wav_player_get_volume (wav_player_set_volume 150 s) = 100"
    by (simp add: wav_player_get_volume_def wav_player_set_volume_def MIN_VOLUME_def
        MAX_VOLUME_def word_sless_alt)
  show ?thesis
    unfolding wav_player_increase_volume_def wav_player_decrease_volume_def sint_set_volume
    using a b by (simp add: sint_add_no_overflow sint_diff_no_overflow)
qed

theorem volume_ops_compose_with_set_witness:
  "- 2147483648 \<le> sint (current_volume initial_state) + sint (80 :: int32_t) \<and>
   sint (current_volume initial_state) + sint (80 :: int32_t) < 2147483648 \<and>
   - 2147483648 \<le> sint (current_volume initial_state) - sint (80 :: int32_t) \<and>
   sint (current_volume initial_state) - sint (80 :: int32_t) < 2147483648 \<and>
   sint (wav_player_get_volume (wav_player_increase_volume 80 initial_state)) = 100 \<and>
   sint (wav_player_get_volume (wav_player_decrease_volume 80 initial_state)) = 0 \<and>
   wav_player_increase_volume (- 80) initial_state = wav_player_decrease_volume 80 initial_state"
proof -
  have h: "- 2147483648 \<le> sint (current_volume initial_state) + sint (80 :: int32_t) \<and>
   sint (current_volume initial_state) + sint (80 :: int32_t) < 2147483648 \<and>
   - 2147483648 \<le> sint (current_volume initial_state) - sint (80 :: int32_t) \<and>
   sint (current_volume initial_state) - sint (80 :: int32_t) < 2147483648"
    by (simp add: initial_state_def)
  have v: "sint (current_volume initial_state) + sint (80 :: int32_t) = 110"
    "sint (current_volume initial_state) - sint (80 :: int32_t) = - 50"
    by (simp_all add: initial_state_def)
  note t = volume_ops_compose_with_set [of 80 initial_state 0]
  from t h have "sint (wav_player_get_volume (wav_player_increase_volume 80 initial_state))
      = max 0 (min 100 (sint (current_volume initial_state) + sint (80 :: int32_t)))"
    by blast
  then have i: "sint (wav_player_get_volume (wav_player_increase_volume 80 initial_state)) = 100"
    by (simp only: v)
  from t h have "sint (wav_player_get_volume (wav_player_decrease_volume 80 initial_state))
      = max 0 (min 100 (sint (current_volume initial_state) - sint (80 :: int32_t)))"
    by blast
  then have d: "sint (wav_player_get_volume (wav_player_decrease_volume 80 initial_state)) = 0"
    by (simp only: v)
  from t have n: "wav_player_increase_volume (- 80) initial_state
      = wav_player_decrease_volume 80 initial_state"
    by blast
  from h i d n show ?thesis
    by blast
qed

text \<open>
  Claim C10. The volume level starts at 30, so reading it before any change gives 30.
  The initial level lies between 0 and 100, and every sequence of set, increase and
  decrease calls, started in a state whose level lies in that range, ends in such a
  state; in particular every sequence started in the initial state does.
\<close>

theorem volume_invariant:
  "wav_player_get_volume initial_state = 30 \<and>
   volume_in_range initial_state \<and>
   (volume_in_range s \<longrightarrow> volume_in_range (run_volume_ops cs s)) \<and>
   volume_in_range (run_volume_ops cs initial_state)"
proof -
  have "volume_in_range initial_state"
    by (simp add: volume_in_range_def initial_state_def)
  then show ?thesis
    by (simp add: run_volume_ops_in_range)
      (simp add: wav_player_get_volume_def initial_state_def)
qed

theorem volume_invariant_witness:
  "volume_in_range initial_state \<and>
   wav_player_get_volume
     (run_volume_ops
        [Increase_volume 80, Decrease_volume 150, Set_volume 150, Decrease_volume 58]
        initial_state) = 42 \<and>
   volume_in_range
     (run_volume_ops
        [Increase_volume 80, Decrease_volume 150, Set_volume 150, Decrease_volume 58]
        initial_state)"
  using volume_invariant
    [of initial_state
        "[Increase_volume 80, Decrease_volume 150, Set_volume 150, Decrease_volume 58]"]
  by (simp add: wav_player_get_volume_def initial_state_def wav_player_increase_volume_def
      wav_player_decrease_volume_def wav_player_set_volume_def MIN_VOLUME_def MAX_VOLUME_def
      word_sless_alt)

section \<open>Header parser\<close>

lemma unat8_less: "unat (b :: uint8_t) < 256"
  using unsigned_less [of b, where ?'a = nat] by simp

lemma unat_of_nat16: "n < 65536 \<Longrightarrow> unat (word_of_nat n :: uint16_t) = n"
  by (simp add: unat_of_nat)

lemma unat_of_nat32: "n < 4294967296 \<Longrightarrow> unat (word_of_nat n :: uint32_t) = n"
  by (simp add: unat_of_nat)

lemma unat_two_bytes:
  fixes b0 b1 :: uint8_t
  shows "unat (ucast ((ucast b0 :: int32_t) OR push_bit 8 (ucast b1 :: int32_t)) :: uint16_t)
         = unat b0 + 256 * unat b1"
proof -
  have "(ucast ((ucast b0 :: int32_t) OR push_bit 8 (ucast b1 :: int32_t)) :: uint16_t)
        = ucast b0 OR push_bit 8 (ucast b1)"
    by (rule bit_word_eqI) (auto simp: bit_simps dest: bit_imp_le_length)
  also have "\<dots> = ucast b0 + push_bit 8 (ucast b1)"
    by (rule disjunctive_add [symmetric]) (auto simp: bit_simps dest: bit_imp_le_length)
  also have "\<dots> = word_of_nat (unat b0 + 256 * unat b1)"
    by (simp add: push_bit_eq_mult)
  finally have
    "unat (ucast ((ucast b0 :: int32_t) OR push_bit 8 (ucast b1 :: int32_t)) :: uint16_t)
       = unat (word_of_nat (unat b0 + 256 * unat b1) :: uint16_t)"
    by simp
  also have "\<dots> = unat b0 + 256 * unat b1"
    using unat8_less [of b0] unat8_less [of b1]
    by (intro unat_of_nat16) arith
  finally show ?thesis .
qed

lemma unat_four_bytes:
  fixes b0 b1 b2 b3 :: uint8_t
  shows "unat ((ucast b0 :: int32_t) OR push_bit 8 (ucast b1 :: int32_t)
                 OR push_bit 16 (ucast b2 :: int32_t) OR push_bit 24 (ucast b3 :: int32_t))
         = unat b0 + 256 * unat b1 + 65536 * unat b2 + 16777216 * unat b3"
proof -
  have e3: "(ucast b0 :: int32_t) OR push_bit 8 (ucast b1 :: int32_t)
              OR push_bit 16 (ucast b2 :: int32_t) OR push_bit 24 (ucast b3 :: int32_t)
     = ucast b0 + (push_bit 8 (ucast b1) OR push_bit 16 (ucast b2 :: int32_t)
                     OR push_bit 24 (ucast b3 :: int32_t))"
    by (rule disjunctive_add [symmetric]) (auto simp: bit_simps dest: bit_imp_le_length)
  have e2: "push_bit 8 (ucast b1) OR push_bit 16 (ucast b2 :: int32_t)
              OR push_bit 24 (ucast b3 :: int32_t)
     = push_bit 8 (ucast b1)
         + (push_bit 16 (ucast b2 :: int32_t) OR push_bit 24 (ucast b3 :: int32_t))"
    by (rule disjunctive_add [symmetric]) (auto simp: bit_simps dest: bit_imp_le_length)
  have e1: "push_bit 16 (ucast b2 :: int32_t) OR push_bit 24 (ucast b3 :: int32_t)
     = push_bit 16 (ucast b2 :: int32_t) + push_bit 24 (ucast b3 :: int32_t)"
    by (rule disjunctive_add [symmetric]) (auto simp: bit_simps dest: bit_imp_le_length)
  have "(ucast b0 :: int32_t) OR push_bit 8 (ucast b1 :: int32_t)
          OR push_bit 16 (ucast b2 :: int32_t) OR push_bit 24 (ucast b3 :: int32_t)
     = ucast b0 + (push_bit 8 (ucast b1) + (push_bit 16 (ucast b2) + push_bit 24 (ucast b3)))"
    by (subst e3, subst e2, subst e1) (rule refl)
  also have "\<dots>
     = word_of_nat (unat b0 + 256 * unat b1 + 65536 * unat b2 + 16777216 * unat b3)"
    by (simp add: push_bit_eq_mult)
  finally have "unat ((ucast b0 :: int32_t) OR push_bit 8 (ucast b1 :: int32_t)
                        OR push_bit 16 (ucast b2 :: int32_t) OR push_bit 24 (ucast b3 :: int32_t))
      = unat (word_of_nat (unat b0 + 256 * unat b1 + 65536 * unat b2 + 16777216 * unat b3)
                :: int32_t)"
    by simp
  also have "\<dots> = unat b0 + 256 * unat b1 + 65536 * unat b2 + 16777216 * unat b3"
    using unat8_less [of b0] unat8_less [of b1] unat8_less [of b2] unat8_less [of b3]
    by (intro unat_of_nat32) arith
  finally show ?thesis .
qed

lemma read_wav_header_short:
  "length fp < 44 \<Longrightarrow> read_wav_header fp h = (ESP_FAIL, h, [])"
  by (simp add: read_wav_header_def fread_def)

lemma read_wav_header_long:
  "44 \<le> length fp \<Longrightarrow>
     fst (read_wav_header fp h) = ESP_OK \<and> snd (snd (read_wav_header fp h)) = drop 44 fp"
  by (simp add: read_wav_header_def fread_def)

lemma ESP_distinct:
  "ESP_FAIL \<noteq> ESP_OK" "ESP_ERR_INVALID_ARG \<noteq> ESP_OK" "ESP_ERR_INVALID_ARG \<noteq> ESP_FAIL"
  by (simp_all add: ESP_OK_def ESP_FAIL_def ESP_ERR_INVALID_ARG_def)

lemma example_header_length: "length (example_header bits align) = 44"
  by (simp add: example_header_def)

text \<open>
  Claim C5. On a stream with at least 44 bytes the parser succeeds, leaves the stream 44
  bytes further on, and fills the fields with the little-endian numbers at the offsets 22
  (channel count), 24 (sample rate), 32 (block alignment), 34 (bits per sample) and 40
  (data size), whatever these numbers are. With fewer than 44 bytes it returns the read
  error and leaves the caller's header as it was. It fails exactly in that case.
\<close>

theorem read_wav_header_contract:
  "(length f < 44 \<longrightarrow> read_wav_header f h = (ESP_FAIL, h, [])) \<and>
   (44 \<le> length f \<longrightarrow>
      (\<exists>h'. read_wav_header f h = (ESP_OK, h', drop 44 f) \<and>
        unat (num_channels h') = le16 f 22 \<and>
        unat (sample_rate h') = le32 f 24 \<and>
        unat (block_align h') = le16 f 32 \<and>
        unat (bits_per_sample h') = le16 f 34 \<and>
        unat (data_size h') = le32 f 40)) \<and>
   (fst (read_wav_header f h) = ESP_FAIL \<longleftrightarrow> length f < 44) \<and>
   (fst (read_wav_header f h) = ESP_OK \<longleftrightarrow> 44 \<le> length f)"
  by (auto simp: read_wav_header_def fread_def unat_two_bytes unat_four_bytes le16_def le32_def
      ESP_OK_def ESP_FAIL_def)

theorem read_wav_header_contract_witness:
  "length [0x52, 0x49, 0x46 :: uint8_t] < 44 \<and>
   read_wav_header [0x52, 0x49, 0x46] (stack_wav_header missing_file_env)
     = (ESP_FAIL, stack_wav_header missing_file_env, []) \<and>
   44 \<le> length (example_header 24 3 @ [0x01, 0x00, 0x80]) \<and>
   fst (read_wav_header (example_header 24 3 @ [0x01, 0x00, 0x80])
          (stack_wav_header missing_file_env)) = ESP_OK \<and>
   snd (snd (read_wav_header (example_header 24 3 @ [0x01, 0x00, 0x80])
          (stack_wav_header missing_file_env))) = [0x01, 0x00, 0x80] \<and>
   le16 (example_header 24 3 @ [0x01, 0x00, 0x80]) 34 = 24 \<and>
   le32 (example_header 24 3 @ [0x01, 0x00, 0x80]) 24 = 8000"
proof -
  have short: "length [0x52, 0x49, 0x46 :: uint8_t] < 44"
    by simp
  have long: "44 \<le> length (example_header 24 3 @ [0x01, 0x00, 0x80])"
    by (simp add: example_header_length)
  have vals: "le16 (example_header 24 3 @ [0x01, 0x00, 0x80]) 34 = 24"
    "le32 (example_header 24 3 @ [0x01, 0x00, 0x80]) 24 = 8000"
    by (simp_all add: le16_def le32_def example_header_def nth_append)
  from read_wav_header_contract [of "[0x52, 0x49, 0x46]" "stack_wav_header missing_file_env"]
    read_wav_header_contract
      [of "example_header 24 3 @ [0x01, 0x00, 0x80]" "stack_wav_header missing_file_env"]
    short long vals
  show ?thesis
    by (auto simp: example_header_length)
qed

section \<open>The floating-point model\<close>

text \<open>
  The facts about the rounding that the model of \<^verbatim>\<open>apply_volume\<close> rests on: \<open>ilog2\<close> is the
  exponent, rounding never passes an integer below \<open>2 ^ 24\<close>, and small integers are
  their own roundings.
\<close>

lemma pow2_powi: "pow2 e = 2 powi e"
  by (simp add: pow2_def power_int_def inverse_eq_divide power_one_over)

lemma pow2_nat: "0 \<le> e \<Longrightarrow> pow2 e = 2 ^ nat e"
  by (simp add: pow2_def)

lemma pow2_pos: "0 < pow2 e"
  by (simp add: pow2_def)

lemma int_between_pow2:
  assumes "0 < x" "1 \<le> bitlen x"
  shows "pow2 (bitlen x - 1) \<le> of_int x" "of_int x < pow2 (bitlen x)"
proof -
  have "(of_int (2 ^ nat (bitlen x - 1)) :: rat) \<le> of_int x"
    using bitlen_bounds [OF assms(1)] by (simp only: of_int_le_iff)
  then have "2 ^ nat (bitlen x - 1) \<le> (of_int x :: rat)"
    by simp
  then show "pow2 (bitlen x - 1) \<le> of_int x"
    using assms(2) by (simp add: pow2_nat)
  have "(of_int x :: rat) < of_int (2 ^ nat (bitlen x))"
    using bitlen_bounds [OF assms(1)] by (simp only: of_int_less_iff)
  then have "(of_int x :: rat) < 2 ^ nat (bitlen x)"
    by simp
  then show "of_int x < pow2 (bitlen x)"
    using assms(2) by (simp add: pow2_nat)
qed

lemma ilog2_bounds:
  assumes "0 < q"
  shows "pow2 (ilog2 q) \<le> q \<and> q < pow2 (ilog2 q + 1)"
proof -
  obtain a b where ab: "quotient_of q = (a, b)"
    by (cases "quotient_of q") auto
  then have b: "0 < b" and q: "q = of_int a / of_int b"
    using quotient_of_denom_pos [OF ab] quotient_of_div [OF ab] by simp_all
  with assms have a: "0 < a"
    by (simp add: zero_less_divide_iff)
  define e where "e = bitlen a - bitlen b"
  have la: "1 \<le> bitlen a" and lb: "1 \<le> bitlen b"
    using a b by (simp_all add: bitlen_alt_def)
  have A: "pow2 (bitlen a - 1) \<le> of_int a" "of_int a < pow2 (bitlen a)"
    using a la by (rule int_between_pow2)+
  have B: "pow2 (bitlen b - 1) \<le> of_int b" "of_int b < pow2 (bitlen b)"
    using b lb by (rule int_between_pow2)+
  have bpos: "(0 :: rat) < of_int b" using b by simp
  have lo: "pow2 (e - 1) < q"
  proof -
    have "pow2 (e - 1) * of_int b < pow2 (e - 1) * pow2 (bitlen b)"
      using B(2) pow2_pos by (simp add: mult_strict_left_mono)
    also have "\<dots> = pow2 (bitlen a - 1)"
      by (simp add: e_def pow2_powi flip: power_int_add)
    also have "\<dots> \<le> of_int a" by (rule A(1))
    finally show ?thesis using bpos by (simp add: q pos_less_divide_eq)
  qed
  have hi: "q < pow2 (e + 1)"
  proof -
    have "of_int a < pow2 (bitlen a)" by (rule A(2))
    also have "\<dots> = pow2 (e + 1) * pow2 (bitlen b - 1)"
      by (simp add: e_def pow2_powi flip: power_int_add)
    also have "\<dots> \<le> pow2 (e + 1) * of_int b"
      using B(1) pow2_pos [of "e + 1"] by (simp add: mult_left_mono)
    finally show ?thesis using bpos by (simp add: q pos_divide_less_eq)
  qed
  have il: "ilog2 q = (if pow2 e \<le> q then e else e - 1)"
    by (simp add: ilog2_def ab e_def Let_def)
  show ?thesis
  proof (cases "pow2 e \<le> q")
    case True
    with il hi show ?thesis by simp
  next
    case False
    with il lo show ?thesis by (simp add: not_le less_imp_le)
  qed
qed

lemma round_half_even_le:
  assumes "x \<le> of_int N"
  shows "round_half_even x \<le> N"
proof -
  have fl: "\<lfloor>x\<rfloor> \<le> N" using assms by (simp add: floor_le_iff) 
  show ?thesis
  proof (cases "x - of_int \<lfloor>x\<rfloor> < 1 / 2")
    case True
    with fl show ?thesis by (simp add: round_half_even_def Let_def)
  next
    case False
    then have "of_int \<lfloor>x\<rfloor> < x" by simp
    with assms have "(of_int \<lfloor>x\<rfloor> :: rat) < of_int N" by simp
    then have "\<lfloor>x\<rfloor> + 1 \<le> N" by simp
    with fl show ?thesis by (simp add: round_half_even_def Let_def)
  qed
qed

lemma round_half_even_of_int: "round_half_even (of_int M) = M"
  by (simp add: round_half_even_def)

lemma round_half_even_nonneg:
  assumes "0 \<le> x"
  shows "0 \<le> round_half_even x"
  using assms by (simp add: round_half_even_def Let_def)

lemma pow2_mono: "a \<le> b \<Longrightarrow> pow2 a \<le> pow2 b"
  by (simp add: pow2_powi power_int_increasing)

lemma pow2_less_imp: "pow2 a < pow2 b \<Longrightarrow> a < b"
  using pow2_mono [of b a] by (cases "a < b") auto

lemma float_round_nonneg:
  assumes "0 \<le> q"
  shows "0 \<le> float_round q"
proof (cases "q = 0")
  case True
  then show ?thesis by (simp add: float_round_def)
next
  case False
  with assms have "0 < q" by simp
  then have "0 \<le> \<bar>q\<bar> / pow2 (ilog2 \<bar>q\<bar> - 23)"
    using pow2_pos [of "ilog2 \<bar>q\<bar> - 23"] by simp
  then have "0 \<le> round_half_even (\<bar>q\<bar> / pow2 (ilog2 \<bar>q\<bar> - 23))"
    by (rule round_half_even_nonneg)
  with \<open>0 < q\<close> pow2_pos [of "ilog2 \<bar>q\<bar> - 23"] show ?thesis
    by (simp add: float_round_def Let_def)
qed

lemma float_round_minus: "float_round (- q) = - float_round q"
  by (simp add: float_round_def Let_def)

lemma float_round_le_int:
  assumes q: "0 < q" and le: "q \<le> of_int N" and N: "N < 16777216"
  shows "float_round q \<le> of_int N"
proof -
  define e where "e = ilog2 q"
  have "pow2 e \<le> q" using ilog2_bounds [OF q] by (simp add: e_def)
  also have "q \<le> of_int N" by (rule le)
  also have "(of_int N :: rat) < pow2 24"
    using N by (simp add: pow2_def)
  finally have "e < 24" by (rule pow2_less_imp)
  then have e: "0 \<le> 23 - e" by simp
  define M where "M = N * 2 ^ nat (23 - e)"
  have ulp: "pow2 (e - 23) = 1 / 2 ^ nat (23 - e)"
  proof -
    have "pow2 (e - 23) = 1 / pow2 (23 - e)"
      by (simp add: pow2_powi power_int_diff)
    then show ?thesis using e by (simp add: pow2_nat)
  qed
  have "q / pow2 (e - 23) \<le> of_int M"
    using le by (simp add: ulp M_def mult_right_mono)
  then have "round_half_even (q / pow2 (e - 23)) \<le> M"
    by (rule round_half_even_le)
  then have "(of_int (round_half_even (q / pow2 (e - 23))) :: rat) \<le> of_int M"
    by (simp only: of_int_le_iff)
  then have "of_int (round_half_even (q / pow2 (e - 23))) * pow2 (e - 23) \<le> of_int M * pow2 (e - 23)"
    using pow2_pos [of "e - 23"] by (simp add: mult_right_mono)
  also have "of_int M * pow2 (e - 23) = of_int N"
    by (simp add: ulp M_def)
  finally show ?thesis
    using q by (simp add: float_round_def Let_def e_def)
qed

lemma float_round_small_int:
  assumes "0 \<le> n" "n < 16777216"
  shows "float_round (of_int n) = of_int n"
proof (cases "n = 0")
  case True
  then show ?thesis by (simp add: float_round_def)
next
  case False
  with assms have q: "(0 :: rat) < of_int n" by simp
  define e where "e = ilog2 (of_int n)"
  have "pow2 e \<le> of_int n" using ilog2_bounds [OF q] by (simp add: e_def)
  also have "(of_int n :: rat) < pow2 24"
    using assms by (simp add: pow2_def)
  finally have "e < 24" by (rule pow2_less_imp)
  then have e: "0 \<le> 23 - e" by simp
  have ulp: "pow2 (e - 23) = 1 / 2 ^ nat (23 - e)"
  proof -
    have "pow2 (e - 23) = 1 / pow2 (23 - e)"
      by (simp add: pow2_powi power_int_diff)
    then show ?thesis using e by (simp add: pow2_nat)
  qed
  have "of_int n / pow2 (e - 23) = (of_int (n * 2 ^ nat (23 - e)) :: rat)"
    by (simp add: ulp)
  then have "round_half_even (of_int n / pow2 (e - 23)) = n * 2 ^ nat (23 - e)"
    by (simp only: round_half_even_of_int)
  then show ?thesis
    using q by (simp add: float_round_def Let_def e_def [symmetric] ulp)
qed

lemma sint16_bounds: "- 32768 \<le> sint (w :: int16_t)" "sint w \<le> 32767"
  using sint_ge [of w] sint_lt [of w] by simp_all

lemma volume_multiplier_bounds:
  assumes "0 \<le> v" "v \<le> 100"
  shows "0 \<le> float_round (float_round (of_int v) / 100)"
    and "float_round (float_round (of_int v) / 100) \<le> 1"
proof -
  have fv: "float_round (of_int v) = of_int v"
    using assms by (intro float_round_small_int) simp_all
  have nonneg: "(0 :: rat) \<le> of_int v / 100" using assms by simp
  show "0 \<le> float_round (float_round (of_int v) / 100)"
    unfolding fv using nonneg by (rule float_round_nonneg)
  show "float_round (float_round (of_int v) / 100) \<le> 1"
  proof (cases "v = 0")
    case True
    then show ?thesis by (simp add: float_round_def)
  next
    case False
    with assms have "(0 :: rat) < of_int v / 100" by simp
    moreover have "(of_int v / 100 :: rat) \<le> of_int 1" using assms by simp
    ultimately have "float_round (of_int v / 100) \<le> of_int 1"
      by (rule float_round_le_int) simp
    then show ?thesis by (simp add: fv)
  qed
qed

lemma scaled_sample_bounds:
  fixes m :: rat
  assumes s: "- 32768 \<le> s" "s \<le> 32767" and m: "0 \<le> m" "m \<le> 1"
  shows "- 32768 \<le> truncate_int (float_round (of_int s * m))"
    and "truncate_int (float_round (of_int s * m)) \<le> 32767"
proof -
  define x :: rat where "x = of_int s * m"
  have both: "- 32768 \<le> truncate_int (float_round x) \<and> truncate_int (float_round x) \<le> 32767"
  proof (cases "0 < x")
    case True
    then have spos: "0 < s" using m by (simp add: x_def zero_less_mult_iff)
    then have "x \<le> of_int s * 1"
      unfolding x_def using m by (intro mult_left_mono) simp_all
    then have "x \<le> of_int s" by simp
    with True have "float_round x \<le> of_int s"
      by (rule float_round_le_int) (use s in simp)
    moreover have "0 \<le> float_round x"
      using True by (intro float_round_nonneg) simp
    ultimately show ?thesis
      using s by (simp add: truncate_int_def floor_le_iff le_floor_iff)
  next
    case False
    show ?thesis
    proof (cases "x = 0")
      case True
      then show ?thesis by (simp add: float_round_def truncate_int_def)
    next
      case nz: False
      with False have neg: "0 < - x" by simp
      then have sneg: "s < 0" using m by (simp add: x_def mult_less_0_iff)
      have "of_int (- s) * m \<le> of_int (- s) * 1"
        using m sneg by (intro mult_left_mono) simp_all
      then have "- x \<le> of_int (- s)" by (simp add: x_def)
      with neg have "float_round (- x) \<le> of_int (- s)"
        by (rule float_round_le_int) (use s in simp)
      moreover have "0 \<le> float_round (- x)"
        using neg by (intro float_round_nonneg) simp
      ultimately have "- of_int (- s) \<le> float_round x" "float_round x \<le> 0"
        by (simp_all add: float_round_minus)
      then show ?thesis
        using s by (auto simp: truncate_int_def floor_le_iff le_floor_iff ceiling_le_iff le_ceiling_iff)
    qed
  qed
  from both show "- 32768 \<le> truncate_int (float_round (of_int s * m))"
    and "truncate_int (float_round (of_int s * m)) \<le> 32767"
    by (simp_all add: x_def)
qed

text \<open>For a volume between 0 and 100 the cast to \<^verbatim>\<open>int16_t\<close> loses nothing.\<close>

lemma apply_volume_in_range:
  assumes "0 \<le> sint volume" "sint volume \<le> 100"
  shows "sint (apply_volume sample volume) =
     truncate_int (float_round (of_int (sint sample)
        * float_round (float_round (of_int (sint volume)) / 100)))"
proof -
  let ?m = "float_round (float_round (of_int (sint volume)) / 100)"
  have m: "0 \<le> ?m" "?m \<le> 1"
    using assms by (rule volume_multiplier_bounds)+
  have "- 32768 \<le> truncate_int (float_round (of_int (sint sample) * ?m))"
    "truncate_int (float_round (of_int (sint sample) * ?m)) \<le> 32767"
    using sint16_bounds [of sample] m by (rule scaled_sample_bounds)+
  then show ?thesis
    by (simp add: apply_volume_def Let_def sint16_in_range)
qed

text \<open>At volume 100 the multiplier is exactly 1 and every sample passes unchanged.\<close>

lemma apply_volume_full: "apply_volume sample 100 = sample"
proof -
  have one: "float_round (float_round (of_int (sint (100 :: int32_t))) / 100) = 1"
    using float_round_small_int [of 100] float_round_small_int [of 1] by simp
  have same: "float_round (of_int s) = of_int s" if "- 32768 \<le> s" "s \<le> 32767" for s :: int
  proof (cases "0 \<le> s")
    case True
    with that show ?thesis by (intro float_round_small_int) simp_all
  next
    case False
    with that have "float_round (of_int (- s)) = of_int (- s)"
      by (intro float_round_small_int) simp_all
    then show ?thesis
      using float_round_minus [of "of_int s"] by simp
  qed
  have trunc: "truncate_int (of_int s) = s" for s
    by (simp add: truncate_int_def)
  have "apply_volume sample 100
          = word_of_int (truncate_int (float_round (of_int (sint sample) * 1)))"
    unfolding apply_volume_def Let_def one ..
  also have "\<dots> = word_of_int (truncate_int (of_int (sint sample)))"
    by (simp only: mult_1_right same [OF sint16_bounds [of sample]])
  also have "\<dots> = word_of_int (sint sample)"
    by (simp only: trunc)
  also have "\<dots> = sample"
    by simp
  finally show ?thesis .
qed

section \<open>Sample transform\<close>

lemma apply_volume_mute: "apply_volume sample 0 = 0"
  by (simp add: apply_volume_def float_round_def truncate_int_def)

lemma store_int16_zero: "store_int16 m i 0 = m(2 * i := 0, 2 * i + 1 := 0)"
  by (simp add: store_int16_def)

lemma fold_store_mute:
  "fold (\<lambda>i pb. store_int16 pb i (apply_volume (load_int16 buf i) 0)) [0..<k] pb
     = (\<lambda>j. if j < 2 * k then 0 else pb j)"
proof (induction k)
  case 0
  show ?case by simp
next
  case (Suc k)
  let ?f = "\<lambda>i pb. store_int16 pb i (apply_volume (load_int16 buf i) 0)"
  have "fold ?f [0..<Suc k] pb = ?f k (fold ?f [0..<k] pb)"
    by simp
  also have "\<dots> = ?f k (\<lambda>j. if j < 2 * k then 0 else pb j)"
    by (simp only: Suc)
  also have "\<dots> = (\<lambda>j. if j < 2 * Suc k then 0 else pb j)"
    by (auto simp: apply_volume_mute store_int16_zero fun_eq_iff)
  finally show ?case .
qed

lemma process_chunk_16_mute:
  "process_chunk 16 0 buf pb n = (\<lambda>j. if j < 2 * (n div 2) then 0 else pb j)"
  by (simp add: process_chunk_def Let_def fold_store_mute)

text \<open>
  At volume 0 the 16-bit branch zeroes the \<open>2 * (n div 2)\<close> bytes of the whole samples.
  When \<open>n\<close> is odd the last of the \<open>n\<close> bytes handed to the sink is the byte the processed
  buffer held before.
\<close>

lemma process_chunk_16_mute_bytes:
  "map (process_chunk 16 0 buf pb n) [0..<n]
     = replicate (2 * (n div 2)) 0 @ (if odd n then [pb (n - 1)] else [])"
proof (rule nth_equalityI)
  show "length (map (process_chunk 16 0 buf pb n) [0..<n]) =
    length (replicate (2 * (n div 2)) 0 @ (if odd n then [pb (n - 1)] else []))"
    by (cases "odd n") (auto elim: oddE)
next
  fix i
  assume "i < length (map (process_chunk 16 0 buf pb n) [0..<n])"
  then have i: "i < n" by simp
  show "map (process_chunk 16 0 buf pb n) [0..<n] ! i =
         (replicate (2 * (n div 2)) 0 @ (if odd n then [pb (n - 1)] else [])) ! i"
  proof (cases "i < 2 * (n div 2)")
    case True
    with i show ?thesis by (simp add: process_chunk_16_mute nth_append)
  next
    case False
    with i have "odd n" "i = n - 1" "2 * (n div 2) = n - 1"
      by presburger+
    with i False show ?thesis by (simp add: process_chunk_16_mute nth_append)
  qed
qed

text \<open>The 24-bit branch leaves the processed buffer as it finds it.\<close>

lemma process_chunk_24: "process_chunk 24 vol buf pb n = pb"
proof -
  have "fold (\<lambda>i pb. pb) xs pb = pb" for xs :: "nat list"
    by (induction xs) simp_all
  then show ?thesis
    by (simp add: process_chunk_def Let_def)
qed

section \<open>Streaming engine\<close>

declare stream_loop.simps [simp del]

lemma sink_failed_append: "sink_failed (xs @ ys) \<longleftrightarrow> sink_failed xs \<or> sink_failed ys"
  by (induction xs rule: sink_failed.induct) auto

lemma bytes_read_total_append:
  "bytes_read_total (xs @ ys) = bytes_read_total xs + bytes_read_total ys"
  by (induction xs rule: bytes_read_total.induct) auto

lemma delivered_append: "delivered (xs @ ys) = delivered xs @ delivered ys"
  by (induction xs rule: delivered.induct) auto

lemma count_fopen_append: "count_fopen (xs @ ys) = count_fopen xs + count_fopen ys"
  by (induction xs rule: count_fopen.induct) auto

lemma sink_failed_iff:
  "sink_failed evs \<longleftrightarrow> (\<exists>bs r. Ev_write_cb bs r \<in> set evs \<and> r \<noteq> ESP_OK)"
  by (induction evs rule: sink_failed.induct) auto

lemma loop_trace_ok_step:
  assumes "loop_trace_ok ret evs"
  shows "loop_trace_ok ret (Ev_fread BUFFER_SIZE (length bs) # Ev_write_cb bs ESP_OK # evs)"
proof (cases "ret = ESP_OK")
  case True
  with assms show ?thesis by (simp add: loop_trace_ok_def)
next
  case False
  with assms obtain pre bs' where
    evs: "evs = pre @ [Ev_fread BUFFER_SIZE (length bs'), Ev_write_cb bs' ret]" and
    pre: "\<not> sink_failed pre" "bytes_read_total pre = sum_list (map length (delivered pre))" and
    cnt: "count_fopen evs = 0"
    by (auto simp: loop_trace_ok_def)
  let ?pre = "Ev_fread BUFFER_SIZE (length bs) # Ev_write_cb bs ESP_OK # pre"
  let ?evs = "Ev_fread BUFFER_SIZE (length bs) # Ev_write_cb bs ESP_OK # evs"
  have a: "?evs = ?pre @ [Ev_fread BUFFER_SIZE (length bs'), Ev_write_cb bs' ret]"
    using evs by simp
  have b: "\<not> sink_failed ?pre"
    using pre by simp
  have c: "bytes_read_total ?pre = sum_list (map length (delivered ?pre))"
    using pre by simp
  have d: "count_fopen ?evs = 0"
    using cnt by simp
  from a b c have "\<exists>p q. ?evs = p @ [Ev_fread BUFFER_SIZE (length q), Ev_write_cb q ret] \<and>
      \<not> sink_failed p \<and> bytes_read_total p = sum_list (map length (delivered p))"
    by blast
  with d False show ?thesis
    unfolding loop_trace_ok_def by (simp only: if_False simp_thms)
qed

lemma stream_loop_eof:
  "stream_loop bps vol cb [] buf pb u = (ESP_OK, [Ev_fread BUFFER_SIZE 0], u)"
  by (subst stream_loop.simps) (simp add: fread_def)

lemma stream_loop_unfold:
  assumes "fp \<noteq> []"
  shows "stream_loop bps vol cb fp buf pb u =
     (let chunk = take BUFFER_SIZE fp;
          n = length chunk;
          buf' = (\<lambda>i. if i < n then chunk ! i else buf i);
          pb' = process_chunk bps vol buf' pb n;
          src = map pb' [0..<n];
          r = fst (cb src u);
          u1 = snd (cb src u)
      in if r \<noteq> ESP_OK then (r, [Ev_fread BUFFER_SIZE n, Ev_write_cb src r], u1)
         else (case stream_loop bps vol cb (drop BUFFER_SIZE fp) buf' pb' u1 of
                 (ret', evs, u2) \<Rightarrow>
                   (ret', Ev_fread BUFFER_SIZE n # Ev_write_cb src ESP_OK # evs, u2)))"
proof -
  have "0 < length (take BUFFER_SIZE fp)"
    using assms by (simp add: BUFFER_SIZE_def)
  then show ?thesis
    by (subst stream_loop.simps) (simp add: fread_def Let_def)
qed

text \<open>Whatever the sink does, the record of the read loop has the shape described above.\<close>

lemma stream_loop_trace:
  "stream_loop bps vol cb fp buf pb u = (ret, evs, u') \<Longrightarrow> loop_trace_ok ret evs"
proof (induction "length fp" arbitrary: fp buf pb u ret evs u' rule: less_induct)
  case less
  show ?case
  proof (cases "fp = []")
    case True
    with less.prems have "ret = ESP_OK" "evs = [Ev_fread BUFFER_SIZE 0]"
      by (simp_all add: stream_loop_eof)
    then show ?thesis
      by (simp add: loop_trace_ok_def)
  next
    case False
    define n where "n = length (take BUFFER_SIZE fp)"
    define buf' where "buf' = (\<lambda>i. if i < n then take BUFFER_SIZE fp ! i else buf i)"
    define pb' where "pb' = process_chunk bps vol buf' pb n"
    define src where "src = map pb' [0..<n]"
    have len: "length src = n" by (simp add: src_def)
    have unf: "stream_loop bps vol cb fp buf pb u =
      (if fst (cb src u) \<noteq> ESP_OK
       then (fst (cb src u), [Ev_fread BUFFER_SIZE n, Ev_write_cb src (fst (cb src u))],
             snd (cb src u))
       else (case stream_loop bps vol cb (drop BUFFER_SIZE fp) buf' pb' (snd (cb src u)) of
                 (ret', evs, u2) \<Rightarrow>
                   (ret', Ev_fread BUFFER_SIZE n # Ev_write_cb src ESP_OK # evs, u2)))"
      unfolding src_def pb'_def buf'_def n_def
      using stream_loop_unfold [OF False, of bps vol cb buf pb u] by (simp only: Let_def)
    show ?thesis
    proof (cases "fst (cb src u) = ESP_OK")
      case True
      obtain r e v where
        rec: "stream_loop bps vol cb (drop BUFFER_SIZE fp) buf' pb' (snd (cb src u)) = (r, e, v)"
        using prod_cases3 by blast
      have "length (drop BUFFER_SIZE fp) < length fp"
        using False by (simp add: BUFFER_SIZE_def)
      then have ih: "loop_trace_ok r e"
        using rec by (rule less.hyps)
      from unf True rec less.prems
      have "ret = r" "evs = Ev_fread BUFFER_SIZE (length src) # Ev_write_cb src ESP_OK # e"
        by (simp_all add: len)
      with ih show ?thesis
        by (simp only: loop_trace_ok_step)
    next
      case bad: False
      from unf bad less.prems
      have r: "ret = fst (cb src u)" and
        e: "evs = [] @ [Ev_fread BUFFER_SIZE (length src), Ev_write_cb src ret]"
        by (simp_all add: len)
      from r bad have "ret \<noteq> ESP_OK" by simp
      moreover have "\<exists>p q. evs = p @ [Ev_fread BUFFER_SIZE (length q), Ev_write_cb q ret] \<and>
          \<not> sink_failed p \<and> bytes_read_total p = sum_list (map length (delivered p))"
        using e by (intro exI [of _ "[]"] exI [of _ src]) simp
      moreover have "count_fopen evs = 0" using e by simp
      ultimately show ?thesis
        unfolding loop_trace_ok_def by (simp only: if_False simp_thms)
    qed
  qed
qed

section \<open>The paths through \<^verbatim>\<open>wav_player_play_file\<close> and \<^verbatim>\<open>wav_player_get_info\<close>\<close>

lemma play_file_null: "wav_player_play_file env s path None u = (ESP_ERR_INVALID_ARG, [], u)"
  by (simp add: wav_player_play_file_def)

lemma play_file_open_fails:
  "fopen env path = None \<Longrightarrow>
   wav_player_play_file env s path (Some cb) u = (ESP_FAIL, [Ev_fopen path], u)"
  by (simp add: wav_player_play_file_def)

lemma play_file_short:
  "fopen env path = Some fp \<Longrightarrow> length fp < 44 \<Longrightarrow>
   wav_player_play_file env s path (Some cb) u
     = (ESP_FAIL, [Ev_fopen path, Ev_fread 44 (length fp), Ev_fclose], u)"
  by (simp add: wav_player_play_file_def read_wav_header_short ESP_distinct)

lemma play_file_invalid:
  "fopen env path = Some fp \<Longrightarrow> 44 \<le> length fp \<Longrightarrow>
   \<not> is_valid_wav_header (fst (snd (read_wav_header fp (stack_wav_header env)))) \<Longrightarrow>
   wav_player_play_file env s path (Some cb) u
     = (ESP_FAIL, [Ev_fopen path, Ev_fread 44 44, Ev_fclose], u)"
  using read_wav_header_long [of fp "stack_wav_header env"]
  by (auto simp: wav_player_play_file_def Let_def split: prod.splits)

lemma play_file_no_memory:
  "fopen env path = Some fp \<Longrightarrow> 44 \<le> length fp \<Longrightarrow>
   malloc_buffer env = None \<or> malloc_processed_buffer env = None \<Longrightarrow>
   is_valid_wav_header (fst (snd (read_wav_header fp (stack_wav_header env)))) \<Longrightarrow>
   wav_player_play_file env s path (Some cb) u
     = (ESP_FAIL, [Ev_fopen path, Ev_fread 44 44, Ev_fclose], u)"
  using read_wav_header_long [of fp "stack_wav_header env"]
  by (auto simp: wav_player_play_file_def Let_def split: prod.splits option.splits)

lemma play_file_streams:
  "fopen env path = Some fp \<Longrightarrow> 44 \<le> length fp \<Longrightarrow>
   is_valid_wav_header (fst (snd (read_wav_header fp (stack_wav_header env)))) \<Longrightarrow>
   malloc_buffer env = Some buf \<Longrightarrow> malloc_processed_buffer env = Some pb \<Longrightarrow>
   stream_loop (bits_per_sample (fst (snd (read_wav_header fp (stack_wav_header env)))))
      (current_volume s) cb (drop 44 fp) buf pb u = (ret, evs, u') \<Longrightarrow>
   wav_player_play_file env s path (Some cb) u =
     (ret, [Ev_fopen path, Ev_fread 44 44] @ evs @ [Ev_fclose], u')"
  using read_wav_header_long [of fp "stack_wav_header env"]
  by (auto simp: wav_player_play_file_def Let_def split: prod.splits option.splits)

text \<open>
  A call either fails before the read loop, with at most the file opened, the header read
  and the file closed, or it runs the read loop between the header read and the close.
\<close>

lemma play_file_cases:
  assumes "wav_player_play_file env s path wcb u = (ret, evs, u')"
  obtains
    (failed) "ret \<noteq> ESP_OK"
      "evs = [] \<or> evs = [Ev_fopen path] \<or> (\<exists>k. evs = [Ev_fopen path, Ev_fread 44 k, Ev_fclose])"
      "u' = u"
  | (streamed) evs0 where
      "evs = [Ev_fopen path, Ev_fread 44 44] @ evs0 @ [Ev_fclose]" "loop_trace_ok ret evs0"
proof (cases wcb)
  case None
  with assms have "ret = ESP_ERR_INVALID_ARG" "evs = []" "u' = u"
    by (simp_all add: play_file_null)
  then show ?thesis by (intro failed) (simp_all add: ESP_distinct)
next
  case (Some cb)
  show ?thesis
  proof (cases "fopen env path")
    case None
    with assms Some have "ret = ESP_FAIL" "evs = [Ev_fopen path]" "u' = u"
      by (simp_all add: play_file_open_fails)
    then show ?thesis by (intro failed) (simp_all add: ESP_distinct)
  next
    case fp: (Some fp)
    show ?thesis
    proof (cases "length fp < 44")
      case True
      with assms Some fp
      have "ret = ESP_FAIL" "evs = [Ev_fopen path, Ev_fread 44 (length fp), Ev_fclose]" "u' = u"
        by (simp_all add: play_file_short)
      then show ?thesis by (intro failed) (simp_all add: ESP_distinct)
    next
      case False
      then have long: "44 \<le> length fp" by simp
      show ?thesis
      proof (cases "is_valid_wav_header (fst (snd (read_wav_header fp (stack_wav_header env))))")
        case inv: False
        with assms Some fp long
        have "ret = ESP_FAIL" "evs = [Ev_fopen path, Ev_fread 44 44, Ev_fclose]" "u' = u"
          by (simp_all add: play_file_invalid)
        then show ?thesis by (intro failed) (simp_all add: ESP_distinct)
      next
        case valid: True
        show ?thesis
        proof (cases "malloc_buffer env = None \<or> malloc_processed_buffer env = None")
          case True
          with assms Some fp long valid
          have "ret = ESP_FAIL" "evs = [Ev_fopen path, Ev_fread 44 44, Ev_fclose]" "u' = u"
            by (simp_all add: play_file_no_memory)
          then show ?thesis by (intro failed) (simp_all add: ESP_distinct)
        next
          case False
          then obtain buf pb where
            m: "malloc_buffer env = Some buf" "malloc_processed_buffer env = Some pb"
            by auto
          obtain r e v where loop:
            "stream_loop (bits_per_sample (fst (snd (read_wav_header fp (stack_wav_header env)))))
               (current_volume s) cb (drop 44 fp) buf pb u = (r, e, v)"
            using prod_cases3 by blast
          from play_file_streams [OF fp long valid m loop] assms Some
          have "ret = r" "evs = [Ev_fopen path, Ev_fread 44 44] @ e @ [Ev_fclose]"
            by simp_all
          moreover have "loop_trace_ok r e"
            using loop by (rule stream_loop_trace)
          ultimately show ?thesis by (intro streamed) simp_all
        qed
      qed
    qed
  qed
qed

lemma get_info_open_fails:
  "fopen env path = None \<Longrightarrow> wav_player_get_info env path h = (ESP_FAIL, h, [Ev_fopen path])"
  by (simp add: wav_player_get_info_def)

lemma get_info_short:
  "fopen env path = Some fp \<Longrightarrow> length fp < 44 \<Longrightarrow>
   wav_player_get_info env path h
     = (ESP_FAIL, h, [Ev_fopen path, Ev_fread 44 (length fp), Ev_fclose])"
  by (simp add: wav_player_get_info_def read_wav_header_short)

lemma get_info_long:
  "fopen env path = Some fp \<Longrightarrow> 44 \<le> length fp \<Longrightarrow>
   fst (wav_player_get_info env path h) = ESP_OK \<and>
   snd (snd (wav_player_get_info env path h)) = [Ev_fopen path, Ev_fread 44 44, Ev_fclose]"
  using read_wav_header_long [of fp h]
  by (auto simp: wav_player_get_info_def split: prod.splits)

text \<open>
  Claim C7. With a null sink callback \<^verbatim>\<open>wav_player_play_file\<close> returns the argument error
  \<open>ESP_ERR_INVALID_ARG\<close> for every path and every \<^verbatim>\<open>user_data\<close>, in every environment and
  state, and makes no call at all: the file is not opened, nothing is read, the sink is
  not called, and \<^verbatim>\<open>user_data\<close> is left as it was.
\<close>

theorem play_file_null_sink:
  "wav_player_play_file env s filepath None user_data = (ESP_ERR_INVALID_ARG, [], user_data)"
  by (simp add: wav_player_play_file_def)

theorem play_file_null_sink_witness:
  "fst (wav_player_play_file (example_env (example_header 16 2 @ [0x12, 0x34]) 0) initial_state
          ''a.wav'' None (0 :: nat)) = ESP_ERR_INVALID_ARG \<and>
   count_fopen
     (fst (snd (wav_player_play_file (example_env (example_header 16 2 @ [0x12, 0x34]) 0)
        initial_state ''a.wav'' None (0 :: nat)))) = 0 \<and>
   bytes_read_total
     (fst (snd (wav_player_play_file (example_env (example_header 16 2 @ [0x12, 0x34]) 0)
        initial_state ''a.wav'' None (0 :: nat)))) = 0 \<and>
   \<not> sink_failed
     (fst (snd (wav_player_play_file (example_env (example_header 16 2 @ [0x12, 0x34]) 0)
        initial_state ''a.wav'' None (0 :: nat)))) \<and>
   delivered
     (fst (snd (wav_player_play_file (example_env (example_header 16 2 @ [0x12, 0x34]) 0)
        initial_state ''a.wav'' None (0 :: nat)))) = []"
  using play_file_null_sink
    [of "example_env (example_header 16 2 @ [0x12, 0x34]) 0" initial_state "''a.wav''" "0 :: nat"]
  by simp

text \<open>
  Claim C6. If a call of the sink returns a failure during a run of
  \<^verbatim>\<open>wav_player_play_file\<close>, then that failure is the result of the run, the record of the
  run ends with the read of that chunk, the failed call and the close of the file (so
  nothing is read and no chunk is handed to the sink afterwards), every earlier call of
  the sink succeeded, and the bytes read are the 44 of the header, the bytes of the chunks
  the sink took and the bytes of the failing chunk.
\<close>

theorem sink_failure_halts_stream:
  assumes run: "wav_player_play_file env s filepath write_cb user_data = (ret, evs, user_data')"
    and ev: "Ev_write_cb bs r \<in> set evs"
    and bad: "r \<noteq> ESP_OK"
  shows "ret = r \<and>
         (\<exists>pre. evs = pre @ [Ev_fread BUFFER_SIZE (length bs), Ev_write_cb bs r, Ev_fclose] \<and>
                \<not> sink_failed pre) \<and>
         sum_list (map length (delivered evs)) + length bs + 44 = bytes_read_total evs"
  using run
proof (cases rule: play_file_cases)
  case failed
  with ev show ?thesis by auto
next
  case (streamed evs0)
  from streamed(1) ev have in0: "Ev_write_cb bs r \<in> set evs0" by auto
  with bad have sf: "sink_failed evs0" by (auto simp: sink_failed_iff)
  with streamed(2) have nok: "ret \<noteq> ESP_OK"
    by (auto simp: loop_trace_ok_def split: if_splits)
  with streamed(2) obtain pre q where
    e0: "evs0 = pre @ [Ev_fread BUFFER_SIZE (length q), Ev_write_cb q ret]" and
    pre: "\<not> sink_failed pre" "bytes_read_total pre = sum_list (map length (delivered pre))"
    by (auto simp: loop_trace_ok_def)
  from pre(1) bad have "Ev_write_cb bs r \<notin> set pre" by (auto simp: sink_failed_iff)
  with in0 e0 have same: "q = bs" "ret = r" by auto
  let ?pre = "[Ev_fopen filepath, Ev_fread 44 44] @ pre"
  have shape: "evs = ?pre @ [Ev_fread BUFFER_SIZE (length bs), Ev_write_cb bs r, Ev_fclose]"
    using streamed(1) e0 same by simp
  have "\<not> sink_failed ?pre" using pre(1) by simp
  moreover have "sum_list (map length (delivered evs)) + length bs + 44 = bytes_read_total evs"
    unfolding shape using pre(2) bad by (simp add: delivered_append bytes_read_total_append)
  ultimately show ?thesis using same shape by blast
qed

theorem sink_failure_halts_stream_witness:
  "wav_player_play_file (example_env (example_header 24 3 @ replicate 1030 7) 0)
     \<lparr>current_volume = 100\<rparr> ''a.wav'' (Some second_call_fails) 0
     = (ESP_FAIL,
        [Ev_fopen ''a.wav'', Ev_fread 44 44,
         Ev_fread BUFFER_SIZE 1024, Ev_write_cb (replicate 1024 0) ESP_OK,
         Ev_fread BUFFER_SIZE 6, Ev_write_cb (replicate 6 0) ESP_FAIL, Ev_fclose],
        2) \<and>
   ESP_FAIL \<noteq> ESP_OK \<and>
   sum_list (map length (delivered
     (fst (snd (wav_player_play_file (example_env (example_header 24 3 @ replicate 1030 7) 0)
        \<lparr>current_volume = 100\<rparr> ''a.wav'' (Some second_call_fails) 0))))) = 1024 \<and>
   bytes_read_total
     (fst (snd (wav_player_play_file (example_env (example_header 24 3 @ replicate 1030 7) 0)
        \<lparr>current_volume = 100\<rparr> ''a.wav'' (Some second_call_fails) 0))) = 1024 + 6 + 44"
proof -
  let ?evs = "[Ev_fopen ''a.wav'', Ev_fread 44 44,
         Ev_fread BUFFER_SIZE 1024, Ev_write_cb (replicate 1024 0) ESP_OK,
         Ev_fread BUFFER_SIZE 6, Ev_write_cb (replicate 6 0) ESP_FAIL, Ev_fclose]"
  have hdr: "read_wav_header (example_header 24 3 @ replicate 1030 7)
       \<lparr>num_channels = 0, sample_rate = 0, bits_per_sample = 0, data_size = 0, block_align = 0\<rparr>
     = (ESP_OK,
        \<lparr>num_channels = 1, sample_rate = 8000, bits_per_sample = 24, data_size = 0,
         block_align = 3\<rparr>,
        replicate 1030 7)"
    by (simp add: read_wav_header_def fread_def example_header_length)
      (simp add: example_header_def nth_append)
  have loop: "stream_loop 24 100 second_call_fails (replicate 1030 7) (\<lambda>i. 0) (\<lambda>i. 0) 0
     = (ESP_FAIL,
        [Ev_fread BUFFER_SIZE 1024, Ev_write_cb (replicate 1024 0) ESP_OK,
         Ev_fread BUFFER_SIZE 6, Ev_write_cb (replicate 6 0) ESP_FAIL], 2)"
    by (simp add: stream_loop_unfold stream_loop_eof Let_def BUFFER_SIZE_def process_chunk_24
        second_call_fails_def map_replicate_const ESP_distinct)
  have run: "wav_player_play_file (example_env (example_header 24 3 @ replicate 1030 7) 0)
     \<lparr>current_volume = 100\<rparr> ''a.wav'' (Some second_call_fails) 0 = (ESP_FAIL, ?evs, 2)"
    by (simp add: wav_player_play_file_def example_env_def hdr loop is_valid_wav_header_def example_header_length
        ESP_distinct)
  have ev: "Ev_write_cb (replicate 6 0) ESP_FAIL \<in> set ?evs"
    by simp
  have bad: "ESP_FAIL \<noteq> ESP_OK"
    by (rule ESP_distinct)
  from sink_failure_halts_stream [OF run ev bad]
  have "sum_list (map length (delivered ?evs)) + length (replicate 6 (0 :: uint8_t)) + 44
          = bytes_read_total ?evs"
    by blast
  moreover have "bytes_read_total ?evs = 1024 + 6 + 44"
    by simp
  ultimately have "sum_list (map length (delivered ?evs)) = 1024"
    by simp
  with run bad show ?thesis
    by simp
qed

section \<open>What the sink receives\<close>

text \<open>
  Claim C2. With the volume at 0 and 16 bits per sample, every chunk handed to the sink
  should be all zero and as long as the chunk read, also when that length is odd. The run
  below plays a file with a valid 16-bit header and one byte of data, with the volume at 0
  and a processed buffer that holds \<open>0xAA\<close> when it is allocated: the sink is handed one
  byte, as many as were read, but the byte is \<open>0xAA\<close>. The loop stores
  \<open>bytes_read div 2\<close> samples and hands on \<open>bytes_read\<close> bytes, so the last byte of an odd
  chunk is never written (lemma \<open>process_chunk_16_mute_bytes\<close>).
\<close>

theorem mute_odd_chunk_delivers_stale_byte:
  "wav_player_play_file (example_env (example_header 16 2 @ [0x12]) 0xAA)
     \<lparr>current_volume = 0\<rparr> ''a.wav'' (Some counting_sink) 0
     = (ESP_OK,
        [Ev_fopen ''a.wav'', Ev_fread 44 44,
         Ev_fread BUFFER_SIZE 1, Ev_write_cb [0xAA] ESP_OK,
         Ev_fread BUFFER_SIZE 0, Ev_fclose],
        1)"
proof -
  have hdr: "read_wav_header (example_header 16 2 @ [0x12])
       \<lparr>num_channels = 0, sample_rate = 0, bits_per_sample = 0, data_size = 0, block_align = 0\<rparr>
     = (ESP_OK,
        \<lparr>num_channels = 1, sample_rate = 8000, bits_per_sample = 16, data_size = 0,
         block_align = 2\<rparr>,
        [0x12])"
    by (simp add: read_wav_header_def fread_def example_header_length)
      (simp add: example_header_def nth_append)
  have loop: "stream_loop 16 0 counting_sink [0x12] (\<lambda>i. 0xAA) (\<lambda>i. 0xAA) 0
     = (ESP_OK,
        [Ev_fread BUFFER_SIZE 1, Ev_write_cb [0xAA] ESP_OK, Ev_fread BUFFER_SIZE 0], 1)"
    by (simp add: stream_loop_unfold stream_loop_eof Let_def BUFFER_SIZE_def
        process_chunk_16_mute counting_sink_def)
  show ?thesis
    by (simp add: wav_player_play_file_def example_env_def hdr loop is_valid_wav_header_def example_header_length
        ESP_distinct)
qed

theorem mute_odd_chunk_delivers_stale_byte_witness:
  "delivered
     (fst (snd (wav_player_play_file (example_env (example_header 16 2 @ [0x12]) 0xAA)
        \<lparr>current_volume = 0\<rparr> ''a.wav'' (Some counting_sink) 0))) = [[0xAA]] \<and>
   bytes_read_total
     (fst (snd (wav_player_play_file (example_env (example_header 16 2 @ [0x12]) 0xAA)
        \<lparr>current_volume = 0\<rparr> ''a.wav'' (Some counting_sink) 0))) = 45"
  using mute_odd_chunk_delivers_stale_byte
  by simp

text \<open>
  Claim C3. For 24-bit input the buffer handed to the sink should hold the re-encoded,
  volume-adjusted samples. The two runs below play files with a valid 24-bit header and
  one sample each, \<open>0x01 0x00 0x80\<close> and \<open>0xFF 0xFF 0x7F\<close>, at volume 100, with buffers that
  hold zeros when they are allocated. The loop computes \<open>- 32768\<close> for the first sample and
  32767 for the second, and in both runs the sink is handed three zero bytes: the 24-bit
  branch stores nothing (lemma \<open>process_chunk_24\<close>).
\<close>

theorem play_24bit_delivers_untouched_buffer:
  "wav_player_play_file (example_env (example_header 24 3 @ [0x01, 0x00, 0x80]) 0)
     \<lparr>current_volume = 100\<rparr> ''a.wav'' (Some counting_sink) 0
     = (ESP_OK,
        [Ev_fopen ''a.wav'', Ev_fread 44 44,
         Ev_fread BUFFER_SIZE 3, Ev_write_cb [0, 0, 0] ESP_OK,
         Ev_fread BUFFER_SIZE 0, Ev_fclose],
        1) \<and>
   wav_player_play_file (example_env (example_header 24 3 @ [0xFF, 0xFF, 0x7F]) 0)
     \<lparr>current_volume = 100\<rparr> ''a.wav'' (Some counting_sink) 0
     = (ESP_OK,
        [Ev_fopen ''a.wav'', Ev_fread 44 44,
         Ev_fread BUFFER_SIZE 3, Ev_write_cb [0, 0, 0] ESP_OK,
         Ev_fread BUFFER_SIZE 0, Ev_fclose],
        1) \<and>
   sint (apply_volume (convert_24_to_16 0x01 0x00 0x80) 100) = - 32768 \<and>
   sint (apply_volume (convert_24_to_16 0xFF 0xFF 0x7F) 100) = 32767"
proof -
  have hdr: "read_wav_header (example_header 24 3 @ data)
       \<lparr>num_channels = 0, sample_rate = 0, bits_per_sample = 0, data_size = 0, block_align = 0\<rparr>
     = (ESP_OK,
        \<lparr>num_channels = 1, sample_rate = 8000, bits_per_sample = 24, data_size = 0,
         block_align = 3\<rparr>,
        data)" for data
    by (simp add: read_wav_header_def fread_def example_header_length)
      (simp add: example_header_def nth_append)
  have loop: "stream_loop 24 100 counting_sink [a, b, c] (\<lambda>i. 0) (\<lambda>i. 0) 0
     = (ESP_OK,
        [Ev_fread BUFFER_SIZE 3, Ev_write_cb [0, 0, 0] ESP_OK, Ev_fread BUFFER_SIZE 0], 1)"
    for a b c
    by (simp add: stream_loop_unfold stream_loop_eof Let_def BUFFER_SIZE_def
        process_chunk_24 counting_sink_def map_replicate_const)
  have runs: "wav_player_play_file (example_env (example_header 24 3 @ [a, b, c]) 0)
     \<lparr>current_volume = 100\<rparr> ''a.wav'' (Some counting_sink) 0
     = (ESP_OK,
        [Ev_fopen ''a.wav'', Ev_fread 44 44,
         Ev_fread BUFFER_SIZE 3, Ev_write_cb [0, 0, 0] ESP_OK,
         Ev_fread BUFFER_SIZE 0, Ev_fclose],
        1)" for a b c
    by (simp add: wav_player_play_file_def example_env_def hdr loop is_valid_wav_header_def example_header_length
        ESP_distinct)
  have v1: "sint (apply_volume (convert_24_to_16 0x01 0x00 0x80) 100) = - 32768"
    by code_simp
  have v2: "sint (apply_volume (convert_24_to_16 0xFF 0xFF 0x7F) 100) = 32767"
    by code_simp
  from runs v1 v2 show ?thesis
    by simp
qed

theorem play_24bit_delivers_untouched_buffer_witness:
  "delivered
     (fst (snd (wav_player_play_file (example_env (example_header 24 3 @ [0x01, 0x00, 0x80]) 0)
        \<lparr>current_volume = 100\<rparr> ''a.wav'' (Some counting_sink) 0))) = [[0, 0, 0]] \<and>
   delivered
     (fst (snd (wav_player_play_file (example_env (example_header 24 3 @ [0xFF, 0xFF, 0x7F]) 0)
        \<lparr>current_volume = 100\<rparr> ''a.wav'' (Some counting_sink) 0))) = [[0, 0, 0]]"
  using play_24bit_delivers_untouched_buffer
  by simp

section \<open>Failures and return values\<close>

lemma get_info_failure_codes:
  "(case get_info_failure env filepath of
      None \<Rightarrow>
        fst (wav_player_get_info env filepath header) = ESP_OK \<and>
        snd (snd (wav_player_get_info env filepath header))
          = [Ev_fopen filepath, Ev_fread 44 44, Ev_fclose]
    | Some OpenError \<Rightarrow>
        wav_player_get_info env filepath header = (ESP_FAIL, header, [Ev_fopen filepath])
    | Some other \<Rightarrow>
        (\<exists>k<44. wav_player_get_info env filepath header
                   = (ESP_FAIL, header, [Ev_fopen filepath, Ev_fread 44 k, Ev_fclose])))"
  by (auto simp: get_info_failure_def get_info_open_fails get_info_short get_info_long not_less
      split: option.splits)

lemma play_file_failure_codes:
  "(case play_file_failure env s filepath write_cb user_data of
      None \<Rightarrow> fst (wav_player_play_file env s filepath write_cb user_data) = ESP_OK
    | Some ArgumentError \<Rightarrow>
        wav_player_play_file env s filepath write_cb user_data
          = (ESP_ERR_INVALID_ARG, [], user_data)
    | Some OpenError \<Rightarrow>
        wav_player_play_file env s filepath write_cb user_data
          = (ESP_FAIL, [Ev_fopen filepath], user_data)
    | Some FormatError \<Rightarrow>
        (\<exists>k<44. wav_player_play_file env s filepath write_cb user_data
                   = (ESP_FAIL, [Ev_fopen filepath, Ev_fread 44 k, Ev_fclose], user_data))
    | Some SinkError \<Rightarrow>
        fst (wav_player_play_file env s filepath write_cb user_data) \<noteq> ESP_OK \<and>
        (\<exists>pre bs. fst (snd (wav_player_play_file env s filepath write_cb user_data))
                     = pre @ [Ev_write_cb bs
                                (fst (wav_player_play_file env s filepath write_cb user_data)),
                              Ev_fclose]
                   \<and> \<not> sink_failed pre)
    | Some other \<Rightarrow>
        wav_player_play_file env s filepath write_cb user_data
          = (ESP_FAIL, [Ev_fopen filepath, Ev_fread 44 44, Ev_fclose], user_data))"
proof (cases write_cb)
  case None
  then show ?thesis by (simp add: play_file_failure_def play_file_null)
next
  case (Some cb)
  show ?thesis
  proof (cases "fopen env filepath")
    case None
    with Some show ?thesis by (simp add: play_file_failure_def play_file_open_fails)
  next
    case fp: (Some fp)
    show ?thesis
    proof (cases "length fp < 44")
      case True
      with Some fp show ?thesis by (simp add: play_file_failure_def play_file_short)
    next
      case False
      then have long: "44 \<le> length fp" by simp
      show ?thesis
      proof (cases "is_valid_wav_header (fst (snd (read_wav_header fp (stack_wav_header env))))")
        case inv: False
        with Some fp long show ?thesis by (simp add: play_file_failure_def play_file_invalid)
      next
        case valid: True
        show ?thesis
        proof (cases "malloc_buffer env = None \<or> malloc_processed_buffer env = None")
          case True
          with Some fp long valid show ?thesis
            by (simp add: play_file_failure_def play_file_no_memory)
        next
          case False
          then obtain buf pb where
            m: "malloc_buffer env = Some buf" "malloc_processed_buffer env = Some pb"
            by auto
          obtain ret e u' where loop:
            "stream_loop (bits_per_sample (fst (snd (read_wav_header fp (stack_wav_header env)))))
               (current_volume s) cb (drop 44 fp) buf pb user_data = (ret, e, u')"
            using prod_cases3 by blast
          let ?evs = "[Ev_fopen filepath, Ev_fread 44 44] @ e @ [Ev_fclose]"
          have run: "wav_player_play_file env s filepath write_cb user_data = (ret, ?evs, u')"
            unfolding Some using fp long valid m loop by (rule play_file_streams)
          have ok: "loop_trace_ok ret e"
            using loop by (rule stream_loop_trace)
          have sf: "sink_failed ?evs \<longleftrightarrow> sink_failed e"
            by (simp add: sink_failed_append)
          have cause: "play_file_failure env s filepath write_cb user_data
                         = (if sink_failed e then Some SinkError else None)"
            using Some fp long valid m run sf by (simp add: play_file_failure_def)
          show ?thesis
          proof (cases "sink_failed e")
            case True
            with ok have nok: "ret \<noteq> ESP_OK"
              by (auto simp: loop_trace_ok_def split: if_splits)
            with ok obtain pre q where
              e: "e = pre @ [Ev_fread BUFFER_SIZE (length q), Ev_write_cb q ret]" and
              pre: "\<not> sink_failed pre"
              by (auto simp: loop_trace_ok_def)
            let ?p = "[Ev_fopen filepath, Ev_fread 44 44] @ pre @ [Ev_fread BUFFER_SIZE (length q)]"
            have "?evs = ?p @ [Ev_write_cb q ret, Ev_fclose]" "\<not> sink_failed ?p"
              using e pre by (simp_all add: sink_failed_append)
            then have "\<exists>p b. ?evs = p @ [Ev_write_cb b ret, Ev_fclose] \<and> \<not> sink_failed p"
              by blast
            with True nok show ?thesis
              unfolding cause run by simp
          next
            case False
            with ok have "ret = ESP_OK"
              by (auto simp: loop_trace_ok_def sink_failed_append split: if_splits)
            with False show ?thesis
              unfolding cause run by simp
          qed
        qed
      qed
    qed
  qed
qed

lemma play_file_opens_once:
  "count_fopen (fst (snd (wav_player_play_file env s filepath write_cb user_data))) \<le> 1"
proof -
  obtain ret evs u' where
    run: "wav_player_play_file env s filepath write_cb user_data = (ret, evs, u')"
    using prod_cases3 by blast
  then have "count_fopen evs \<le> 1"
  proof (cases rule: play_file_cases)
    case failed
    then show ?thesis by auto
  next
    case (streamed evs0)
    then show ?thesis by (simp add: count_fopen_append loop_trace_ok_def)
  qed
  with run show ?thesis by simp
qed

text \<open>
  Claim C8, as stated: distinct kinds of failure give return values the caller can tell
  apart. A path that cannot be opened and a file of fewer than 44 bytes are failures of
  two kinds, and \<^verbatim>\<open>wav_player_play_file\<close> returns the same value for both.
\<close>

theorem failure_kinds_share_ESP_FAIL:
  "play_file_failure missing_file_env initial_state ''a.wav'' (Some counting_sink) 0
     = Some OpenError \<and>
   play_file_failure (example_env [] 0) initial_state ''a.wav'' (Some counting_sink) 0
     = Some FormatError \<and>
   OpenError \<noteq> FormatError \<and>
   fst (wav_player_play_file missing_file_env initial_state ''a.wav'' (Some counting_sink) 0)
     = fst (wav_player_play_file (example_env [] 0) initial_state ''a.wav''
              (Some counting_sink) 0)"
  by (simp add: play_file_failure_def missing_file_env_def example_env_def
      wav_player_play_file_def read_wav_header_def fread_def ESP_distinct)

text \<open>
  Claim C8, amended. Every failure of \<^verbatim>\<open>wav_player_play_file\<close> and \<^verbatim>\<open>wav_player_get_info\<close>
  ends the call without a second attempt and gives a return value other than \<open>ESP_OK\<close>:
  a missing sink gives \<open>ESP_ERR_INVALID_ARG\<close> and no call at all; a path that cannot be
  opened gives \<open>ESP_FAIL\<close> after the one attempt to open it; a short header, an unsupported
  format and a failed allocation give \<open>ESP_FAIL\<close> after one open, one read of the header
  and the close; a failure of the sink gives the sink's own value, and the failed call is
  followed by the close only. The file is opened at most once. The return value separates
  the missing sink from the four kinds that share \<open>ESP_FAIL\<close>, and nothing more.
\<close>

theorem failures_terminal_and_coded:
  "(case play_file_failure env s filepath write_cb user_data of
      None \<Rightarrow> fst (wav_player_play_file env s filepath write_cb user_data) = ESP_OK
    | Some ArgumentError \<Rightarrow>
        wav_player_play_file env s filepath write_cb user_data
          = (ESP_ERR_INVALID_ARG, [], user_data)
    | Some OpenError \<Rightarrow>
        wav_player_play_file env s filepath write_cb user_data
          = (ESP_FAIL, [Ev_fopen filepath], user_data)
    | Some FormatError \<Rightarrow>
        (\<exists>k<44. wav_player_play_file env s filepath write_cb user_data
                   = (ESP_FAIL, [Ev_fopen filepath, Ev_fread 44 k, Ev_fclose], user_data))
    | Some SinkError \<Rightarrow>
        fst (wav_player_play_file env s filepath write_cb user_data) \<noteq> ESP_OK \<and>
        (\<exists>pre bs. fst (snd (wav_player_play_file env s filepath write_cb user_data))
                     = pre @ [Ev_write_cb bs
                                (fst (wav_player_play_file env s filepath write_cb user_data)),
                              Ev_fclose]
                   \<and> \<not> sink_failed pre)
    | Some other \<Rightarrow>
        wav_player_play_file env s filepath write_cb user_data
          = (ESP_FAIL, [Ev_fopen filepath, Ev_fread 44 44, Ev_fclose], user_data)) \<and>
   count_fopen (fst (snd (wav_player_play_file env s filepath write_cb user_data))) \<le> 1 \<and>
   (case get_info_failure env filepath of
      None \<Rightarrow>
        fst (wav_player_get_info env filepath header) = ESP_OK \<and>
        snd (snd (wav_player_get_info env filepath header))
          = [Ev_fopen filepath, Ev_fread 44 44, Ev_fclose]
    | Some OpenError \<Rightarrow>
        wav_player_get_info env filepath header = (ESP_FAIL, header, [Ev_fopen filepath])
    | Some other \<Rightarrow>
        (\<exists>k<44. wav_player_get_info env filepath header
                   = (ESP_FAIL, header, [Ev_fopen filepath, Ev_fread 44 k, Ev_fclose]))) \<and>
   ESP_ERR_INVALID_ARG \<noteq> ESP_FAIL \<and> ESP_ERR_INVALID_ARG \<noteq> ESP_OK \<and> ESP_FAIL \<noteq> ESP_OK"
  using play_file_failure_codes [of env s filepath write_cb user_data]
    play_file_opens_once [of env s filepath write_cb user_data]
    get_info_failure_codes [of env filepath header]
  by (simp only: ESP_distinct simp_thms)

theorem failures_terminal_and_coded_witness:
  "play_file_failure (example_env [0x52, 0x49] 0) initial_state ''a.wav'' (Some counting_sink) 0
     = Some FormatError \<and>
   wav_player_play_file (example_env [0x52, 0x49] 0) initial_state ''a.wav''
       (Some counting_sink) 0
     = (ESP_FAIL, [Ev_fopen ''a.wav'', Ev_fread 44 2, Ev_fclose], 0) \<and>
   get_info_failure (example_env [0x52, 0x49] 0) ''a.wav'' = Some FormatError \<and>
   wav_player_get_info (example_env [0x52, 0x49] 0) ''a.wav''
       (stack_wav_header missing_file_env)
     = (ESP_FAIL, stack_wav_header missing_file_env, [Ev_fopen ''a.wav'', Ev_fread 44 2, Ev_fclose])"
proof -
  have p: "play_file_failure (example_env [0x52, 0x49] 0) initial_state ''a.wav''
             (Some counting_sink) 0 = Some FormatError"
    by (simp add: play_file_failure_def example_env_def)
  have g: "get_info_failure (example_env [0x52, 0x49] 0) ''a.wav'' = Some FormatError"
    by (simp add: get_info_failure_def example_env_def)
  have runs:
    "fst (snd (wav_player_play_file (example_env [0x52, 0x49] 0) initial_state ''a.wav''
       (Some counting_sink) 0)) = [Ev_fopen ''a.wav'', Ev_fread 44 2, Ev_fclose]"
    "snd (snd (wav_player_get_info (example_env [0x52, 0x49] 0) ''a.wav''
       (stack_wav_header missing_file_env))) = [Ev_fopen ''a.wav'', Ev_fread 44 2, Ev_fclose]"
    by (simp_all add: wav_player_play_file_def wav_player_get_info_def example_env_def
        read_wav_header_def fread_def ESP_distinct)
  from failures_terminal_and_coded
         [of "example_env [0x52, 0x49] 0" initial_state "''a.wav''" "Some counting_sink" 0
             "stack_wav_header missing_file_env"]
  have "(\<exists>k<44. wav_player_play_file (example_env [0x52, 0x49] 0) initial_state ''a.wav''
                   (Some counting_sink) 0
                 = (ESP_FAIL, [Ev_fopen ''a.wav'', Ev_fread 44 k, Ev_fclose], 0))"
    "(\<exists>k<44. wav_player_get_info (example_env [0x52, 0x49] 0) ''a.wav''
                  (stack_wav_header missing_file_env)
                 = (ESP_FAIL, stack_wav_header missing_file_env,
                    [Ev_fopen ''a.wav'', Ev_fread 44 k, Ev_fclose]))"
    by (simp_all add: p g)
  with runs p g show ?thesis
    by auto
qed

end
